theory Spec2Isabelle
  imports Complex_Main "HOL-Library.Stream"
begin

section \<open>Numbers, typed arrays and the random source\<close>

text \<open>
  The simulation computes with JavaScript numbers stored in typed arrays. The embedding
  idealises them as real numbers: rounding to 32-bit floats, infinities and NaN are outside
  the model. A typed array of fixed length is a total function on indices; every operation
  below is stated for indices inside the array, which is where the source reads and writes
  (grid indices are wrapped or clamped into range by the source itself, slot indices come
  from the free list). \<open>Math.random()\<close> is a stream of reals that is passed along and
  consumed one draw at a time.
\<close>

type_synonym farray = "nat \<Rightarrow> real"

definition N :: nat where "N = 28"
definition N2 :: nat where "N2 = N * N"
definition N3 :: nat where "N3 = N * N * N"
definition WORLD_RANGE :: real where "WORLD_RANGE = 14"
definition VEV :: real where "VEV = 0.8"

text \<open>The remainder operator \<open>%\<close> of JavaScript truncates: the result has the sign of the dividend.\<close>

definition js_rem :: "int \<Rightarrow> int \<Rightarrow> int" where
  "js_rem a b = sgn a * (\<bar>a\<bar> mod \<bar>b\<bar>)"

text \<open>\<open>TypedArray.fill(v)\<close> on an array of length \<open>n\<close>.\<close>

definition fill :: "nat \<Rightarrow> 'a \<Rightarrow> (nat \<Rightarrow> 'a) \<Rightarrow> (nat \<Rightarrow> 'a)" where
  "fill n v a = (\<lambda>j. if j < n then v else a j)"

text \<open>The triple loop \<open>for x < N, for y < N, for z < N\<close>.\<close>

definition grid_loop :: "(nat \<Rightarrow> nat \<Rightarrow> nat \<Rightarrow> 's \<Rightarrow> 's) \<Rightarrow> 's \<Rightarrow> 's" where
  "grid_loop body = fold (\<lambda>x. fold (\<lambda>y. fold (\<lambda>z. body x y z) [0..<N]) [0..<N]) [0..<N]"

section \<open>QuantumField\<close>

record QuantumField =
  higgs :: farray
  electron :: farray
  photon :: farray
  higgsVel :: farray
  electronVel :: farray
  photonVel :: farray
  phi :: farray
  orchCoherence :: farray
  orchFlash :: "nat \<Rightarrow> nat"
  heartSurface :: farray
  heartInterior :: farray
  heartStrength :: real
  heartSurfaceCells :: "nat list"
  heartInteriorCells :: "nat list"
  higgsAcc :: farray
  electronAcc :: farray
  photonAcc :: farray

definition idx :: "int \<Rightarrow> int \<Rightarrow> int \<Rightarrow> nat" where
  "idx x y z =
     (let xi = js_rem (js_rem x (int N) + int N) (int N);
          yi = js_rem (js_rem y (int N) + int N) (int N);
          zi = js_rem (js_rem z (int N) + int N) (int N)
      in nat (xi + yi * int N + zi * int N2))"

definition laplacian :: "farray \<Rightarrow> int \<Rightarrow> int \<Rightarrow> int \<Rightarrow> real" where
  "laplacian fld x y z =
     (let c = fld (idx x y z);
          xp = fld (idx (x + 1) y z);
          xm = fld (idx (x - 1) y z);
          yp = fld (idx x (y + 1) z);
          ym = fld (idx x (y - 1) z);
          zp = fld (idx x y (z + 1));
          zm = fld (idx x y (z - 1))
      in xp + xm + yp + ym + zp + zm - 6 * c)"

text \<open>Step 1 of \<open>update\<close>: the accelerations at the current positions, one grid cell.\<close>

definition update_acc_cell :: "nat \<Rightarrow> nat \<Rightarrow> nat \<Rightarrow> QuantumField \<Rightarrow> QuantumField" where
  "update_acc_cell x y z f =
     (let i = idx (int x) (int y) (int z);
          h = higgs f i;
          e = electron f i;
          lap_h = laplacian (higgs f) (int x) (int y) (int z);
          lap_e = laplacian (electron f) (int x) (int y) (int z);
          lap_p = laplacian (photon f) (int x) (int y) (int z)
      in f\<lparr>higgsAcc := (higgsAcc f)(i := 0.3 * lap_h - (h - VEV) * (h * h - VEV * VEV) * 0.4 - 0.1 * e * e),
            electronAcc := (electronAcc f)(i := 0.5 * lap_e - 0.2 * e - 0.3 * h * e),
            photonAcc := (photonAcc f)(i := 1.0 * lap_p - 0.05 * photonVel f i + 0.2 * electronVel f i)\<rparr>)"

text \<open>Step 2: the positions, one cell.\<close>

definition update_pos_cell :: "real \<Rightarrow> nat \<Rightarrow> QuantumField \<Rightarrow> QuantumField" where
  "update_pos_cell dt i f =
     (let dt2half = 0.5 * dt * dt
      in f\<lparr>higgs := (higgs f)(i := higgs f i + (higgsVel f i * dt + higgsAcc f i * dt2half)),
            electron := (electron f)(i := electron f i + (electronVel f i * dt + electronAcc f i * dt2half)),
            photon := (photon f)(i := photon f i + (photonVel f i * dt + photonAcc f i * dt2half))\<rparr>)"

text \<open>Step 3: the accelerations at the new positions and the velocities, one grid cell.\<close>

definition update_vel_cell :: "real \<Rightarrow> nat \<Rightarrow> nat \<Rightarrow> nat \<Rightarrow> QuantumField \<Rightarrow> QuantumField" where
  "update_vel_cell dt x y z f =
     (let dthalf = 0.5 * dt;
          i = idx (int x) (int y) (int z);
          h = higgs f i;
          e = electron f i;
          lap_h = laplacian (higgs f) (int x) (int y) (int z);
          lap_e = laplacian (electron f) (int x) (int y) (int z);
          lap_p = laplacian (photon f) (int x) (int y) (int z);
          new_ah = 0.3 * lap_h - (h - VEV) * (h * h - VEV * VEV) * 0.4 - 0.1 * e * e;
          new_ae = 0.5 * lap_e - 0.2 * e - 0.3 * h * e;
          new_ap = 1.0 * lap_p - 0.05 * photonVel f i + 0.2 * electronVel f i
      in f\<lparr>higgsVel := (higgsVel f)(i := higgsVel f i + (higgsAcc f i + new_ah) * dthalf),
            electronVel := (electronVel f)(i := electronVel f i + (electronAcc f i + new_ae) * dthalf),
            photonVel := (photonVel f)(i := photonVel f i + (photonAcc f i + new_ap) * dthalf)\<rparr>)"

text \<open>
  The heart attractor. Each surface cell draws one random number and is skipped when the
  draw exceeds the strength; a cell that is pulled draws two more for its kicks.
\<close>

fun heart_surface_loop ::
  "real \<Rightarrow> real \<Rightarrow> nat list \<Rightarrow> QuantumField \<Rightarrow> real stream \<Rightarrow> QuantumField \<times> real stream" where
  "heart_surface_loop hs dt [] f r = (f, r)"
| "heart_surface_loop hs dt (i # cs) f r =
     (if shd r > hs then heart_surface_loop hs dt cs f (stl r)
      else
        (let surf = heartSurface f i;
             r1 = stl r;
             f1 = f\<lparr>electronVel := (electronVel f)(i := electronVel f i + (surf * 0.7 - electron f i) * hs * 0.5 * dt)\<rparr>;
             f2 = f1\<lparr>electronVel := (electronVel f1)(i := electronVel f1 i + (shd r1 - 0.5) * surf * hs * 0.6)\<rparr>;
             r2 = stl r1;
             f3 = f2\<lparr>photonVel := (photonVel f2)(i := photonVel f2 i + (shd r2 - 0.5) * surf * hs * 0.2)\<rparr>
         in heart_surface_loop hs dt cs f3 (stl r2)))"

fun heart_interior_loop ::
  "real \<Rightarrow> real \<Rightarrow> nat list \<Rightarrow> QuantumField \<Rightarrow> real stream \<Rightarrow> QuantumField \<times> real stream" where
  "heart_interior_loop innerProb dt [] f r = (f, r)"
| "heart_interior_loop innerProb dt (i # cs) f r =
     (if shd r > innerProb then heart_interior_loop innerProb dt cs f (stl r)
      else heart_interior_loop innerProb dt cs
             (f\<lparr>electronVel := (electronVel f)(i := electronVel f i + (0.15 - electron f i) * 0.25 * dt)\<rparr>)
             (stl r))"

definition heart_attractor :: "real \<Rightarrow> QuantumField \<Rightarrow> real stream \<Rightarrow> QuantumField \<times> real stream" where
  "heart_attractor dt f r =
     (if heartStrength f > 0 then
        (let hs = heartStrength f;
             (f1, r1) = heart_surface_loop hs dt (heartSurfaceCells f) f r;
             innerProb = hs * 0.35
         in heart_interior_loop innerProb dt (heartInteriorCells f1) f1 r1)
      else (f, r))"

text \<open>The final clamp, one cell.\<close>

definition update_clamp_cell :: "nat \<Rightarrow> QuantumField \<Rightarrow> QuantumField" where
  "update_clamp_cell i f =
     f\<lparr>higgs := (higgs f)(i := max (-5) (min 5 (higgs f i))),
       electron := (electron f)(i := max (-5) (min 5 (electron f i))),
       photon := (photon f)(i := max (-5) (min 5 (photon f i)))\<rparr>"

definition QuantumField_update :: "real \<Rightarrow> QuantumField \<Rightarrow> real stream \<Rightarrow> QuantumField \<times> real stream" where
  "QuantumField_update dt f r =
     (let f1 = grid_loop update_acc_cell f;
          f2 = fold (update_pos_cell dt) [0..<N3] f1;
          f3 = grid_loop (update_vel_cell dt) f2;
          (f4, r4) = heart_attractor dt f3 r
      in (fold update_clamp_cell [0..<N3] f4, r4))"

text \<open>
  Two concrete fields with the heart attractor switched off: the vacuum at rest, and a field
  at rest whose higgs amplitude is zero everywhere (off the vacuum value, so it accelerates).
\<close>

definition vacuum_field :: QuantumField where
  "vacuum_field =
     \<lparr>higgs = (\<lambda>_. VEV), electron = (\<lambda>_. 0), photon = (\<lambda>_. 0),
      higgsVel = (\<lambda>_. 0), electronVel = (\<lambda>_. 0), photonVel = (\<lambda>_. 0),
      phi = (\<lambda>_. 0), orchCoherence = (\<lambda>_. 0), orchFlash = (\<lambda>_. 0),
      heartSurface = (\<lambda>_. 0), heartInterior = (\<lambda>_. 0), heartStrength = 0,
      heartSurfaceCells = [], heartInteriorCells = [],
      higgsAcc = (\<lambda>_. 0), electronAcc = (\<lambda>_. 0), photonAcc = (\<lambda>_. 0)\<rparr>"

definition still_field :: QuantumField where
  "still_field = vacuum_field\<lparr>higgs := (\<lambda>_. 0)\<rparr>"

subsection \<open>The grid as a list of cells\<close>

text \<open>
  The cells \<open>(x, y, z)\<close> in the order the triple loop visits them, and the flat index
  \<open>x + y\<cdot>N + z\<cdot>N\<^sup>2\<close> of a cell.
\<close>

definition grid_cells :: "(nat \<times> nat \<times> nat) list" where
  "grid_cells = List.product [0..<N] (List.product [0..<N] [0..<N])"

definition cell_key :: "nat \<times> nat \<times> nat \<Rightarrow> nat" where
  "cell_key c = (case c of (x, y, z) \<Rightarrow> x + y * N + z * N2)"

subsection \<open>The velocity-Verlet step as the specification words it\<close>

text \<open>
  The specification's laws, written on flat indices with the periodic wrap as \<open>mod\<close>:
  the six-neighbour Laplacian \<open>L[f] = \<Sum>neighbours f - 6f\<close>, the three accelerations,
  the position advance \<open>x += v\<cdot>dt + \<onehalf>a\<cdot>dt\<^sup>2\<close> and the velocity advance
  \<open>v += \<onehalf>(a_old + a_new)\<cdot>dt\<close>. The new accelerations are taken at the new
  amplitudes; the velocities that enter the photon law are the ones of the start of the step,
  since no velocity has been advanced yet when they are read.
\<close>

definition spec_laplacian :: "farray \<Rightarrow> nat \<Rightarrow> real" where
  "spec_laplacian fld i =
     (let x = i mod N; y = (i div N) mod N; z = i div N2;
          v = (\<lambda>x y z. fld (x + y * N + z * N2))
      in v ((x + 1) mod N) y z + v ((x + N - 1) mod N) y z
       + v x ((y + 1) mod N) z + v x ((y + N - 1) mod N) z
       + v x y ((z + 1) mod N) + v x y ((z + N - 1) mod N)
       - 6 * fld i)"

definition spec_acc_higgs :: "farray \<Rightarrow> farray \<Rightarrow> nat \<Rightarrow> real" where
  "spec_acc_higgs hg el i =
     0.3 * spec_laplacian hg i - (hg i - VEV) * ((hg i)\<^sup>2 - VEV\<^sup>2) * 0.4 - 0.1 * (el i)\<^sup>2"

definition spec_acc_electron :: "farray \<Rightarrow> farray \<Rightarrow> nat \<Rightarrow> real" where
  "spec_acc_electron hg el i = 0.5 * spec_laplacian el i - 0.2 * el i - 0.3 * hg i * el i"

definition spec_acc_photon :: "farray \<Rightarrow> farray \<Rightarrow> farray \<Rightarrow> nat \<Rightarrow> real" where
  "spec_acc_photon ph pv ev i = 1.0 * spec_laplacian ph i - 0.05 * pv i + 0.2 * ev i"

definition spec_advance_pos :: "real \<Rightarrow> real \<Rightarrow> real \<Rightarrow> real \<Rightarrow> real" where
  "spec_advance_pos dt x v a = x + v * dt + 1/2 * a * dt\<^sup>2"

definition spec_advance_vel :: "real \<Rightarrow> real \<Rightarrow> real \<Rightarrow> real \<Rightarrow> real" where
  "spec_advance_vel dt v a_old a_new = v + 1/2 * (a_old + a_new) * dt"

definition spec_new_higgs :: "real \<Rightarrow> QuantumField \<Rightarrow> farray" where
  "spec_new_higgs dt f i =
     spec_advance_pos dt (higgs f i) (higgsVel f i) (spec_acc_higgs (higgs f) (electron f) i)"

definition spec_new_electron :: "real \<Rightarrow> QuantumField \<Rightarrow> farray" where
  "spec_new_electron dt f i =
     spec_advance_pos dt (electron f i) (electronVel f i) (spec_acc_electron (higgs f) (electron f) i)"

definition spec_new_photon :: "real \<Rightarrow> QuantumField \<Rightarrow> farray" where
  "spec_new_photon dt f i =
     spec_advance_pos dt (photon f i) (photonVel f i)
       (spec_acc_photon (photon f) (photonVel f) (electronVel f) i)"

definition spec_new_higgsVel :: "real \<Rightarrow> QuantumField \<Rightarrow> farray" where
  "spec_new_higgsVel dt f i =
     spec_advance_vel dt (higgsVel f i)
       (spec_acc_higgs (higgs f) (electron f) i)
       (spec_acc_higgs (spec_new_higgs dt f) (spec_new_electron dt f) i)"

definition spec_new_electronVel :: "real \<Rightarrow> QuantumField \<Rightarrow> farray" where
  "spec_new_electronVel dt f i =
     spec_advance_vel dt (electronVel f i)
       (spec_acc_electron (higgs f) (electron f) i)
       (spec_acc_electron (spec_new_higgs dt f) (spec_new_electron dt f) i)"

definition spec_new_photonVel :: "real \<Rightarrow> QuantumField \<Rightarrow> farray" where
  "spec_new_photonVel dt f i =
     spec_advance_vel dt (photonVel f i)
       (spec_acc_photon (photon f) (photonVel f) (electronVel f) i)
       (spec_acc_photon (spec_new_photon dt f) (photonVel f) (electronVel f) i)"

subsection \<open>The accelerations of one cell, as the two passes of the source compute them\<close>

definition ikey :: "nat \<times> nat \<times> nat \<Rightarrow> nat" where
  "ikey c = (case c of (x, y, z) \<Rightarrow> idx (int x) (int y) (int z))"

definition cell_acc_higgs :: "farray \<Rightarrow> farray \<Rightarrow> nat \<times> nat \<times> nat \<Rightarrow> real" where
  "cell_acc_higgs hg el c =
     (case c of (x, y, z) \<Rightarrow>
        0.3 * laplacian hg (int x) (int y) (int z)
        - (hg (ikey c) - VEV) * (hg (ikey c) * hg (ikey c) - VEV * VEV) * 0.4
        - 0.1 * el (ikey c) * el (ikey c))"

definition cell_acc_electron :: "farray \<Rightarrow> farray \<Rightarrow> nat \<times> nat \<times> nat \<Rightarrow> real" where
  "cell_acc_electron hg el c =
     (case c of (x, y, z) \<Rightarrow>
        0.5 * laplacian el (int x) (int y) (int z) - 0.2 * el (ikey c) - 0.3 * hg (ikey c) * el (ikey c))"

definition cell_acc_photon :: "farray \<Rightarrow> farray \<Rightarrow> farray \<Rightarrow> nat \<times> nat \<times> nat \<Rightarrow> real" where
  "cell_acc_photon ph pv ev c =
     (case c of (x, y, z) \<Rightarrow>
        1.0 * laplacian ph (int x) (int y) (int z) - 0.05 * pv (ikey c) + 0.2 * ev (ikey c))"

section \<open>Consciousness\<close>

text \<open>
  The object holds a reference to the field; the embedding passes the field in and returns
  it updated.
\<close>

record Consciousness =
  orchThreshold :: real
  orchGrowthRate :: real
  iitUpdateRate :: real
  enabled :: bool

text \<open>The body of the loop of \<open>updateOrchOR\<close> for one cell.\<close>

definition updateOrchOR_cell :: "Consciousness \<Rightarrow> real \<Rightarrow> nat \<Rightarrow> QuantumField \<Rightarrow> QuantumField" where
  "updateOrchOR_cell cs rate i f =
     (let h = higgs f i;
          e = electron f i;
          p = photon f i;
          ev = electronVel f i;
          pv = photonVel f i;
          electronActivity = e * e + ev * ev;
          photonOscillation = p * p + pv * pv;
          higgsDeviation = \<bar>h - VEV\<bar>;
          delta = (electronActivity * 0.6 + photonOscillation * 0.4 - higgsDeviation * 0.5) * rate;
          f1 = f\<lparr>orchCoherence := (orchCoherence f)(i := max 0 (min 1 (orchCoherence f i + delta)))\<rparr>
      in if orchCoherence f1 i \<ge> orchThreshold cs
         then f1\<lparr>orchFlash := (orchFlash f1)(i := 1), orchCoherence := (orchCoherence f1)(i := 0)\<rparr>
         else f1)"

definition updateOrchOR :: "Consciousness \<Rightarrow> real \<Rightarrow> QuantumField \<Rightarrow> QuantumField" where
  "updateOrchOR cs dt f =
     (let f0 = f\<lparr>orchFlash := fill N3 0 (orchFlash f)\<rparr>;
          rate = orchGrowthRate cs * dt
      in fold (updateOrchOR_cell cs rate) [0..<N3] f0)"

text \<open>
  The growth of the coherence of a cell in one call as the specification words it, and the
  coherence after the growth and the clamp.
\<close>

definition spec_orch_delta :: "Consciousness \<Rightarrow> real \<Rightarrow> QuantumField \<Rightarrow> nat \<Rightarrow> real" where
  "spec_orch_delta cs dt f i =
     orchGrowthRate cs * dt *
       (0.6 * ((electron f i)\<^sup>2 + (electronVel f i)\<^sup>2)
        + 0.4 * ((photon f i)\<^sup>2 + (photonVel f i)\<^sup>2)
        - 0.5 * \<bar>higgs f i - VEV\<bar>)"

definition spec_orch_grown :: "Consciousness \<Rightarrow> real \<Rightarrow> QuantumField \<Rightarrow> nat \<Rightarrow> real" where
  "spec_orch_grown cs dt f i = max 0 (min 1 (orchCoherence f i + spec_orch_delta cs dt f i))"

text \<open>
  The default parameters of the constructor, and a field whose electron channel is active
  enough (amplitude 5, velocity 10) for a cell to gain more than the threshold in one call
  of the every-fourth-step analysis (\<open>dt = 4 \<cdot> 0.004\<close>).
\<close>

definition default_consciousness :: Consciousness where
  "default_consciousness =
     \<lparr>orchThreshold = 0.95, orchGrowthRate = 0.8, iitUpdateRate = 0.15, enabled = True\<rparr>"

definition excited_field :: QuantumField where
  "excited_field = vacuum_field\<lparr>electron := (\<lambda>_. 5), electronVel := (\<lambda>_. 10)\<rparr>"

section \<open>The fixed-timestep driver\<close>

text \<open>
  \<open>animate\<close> of \<open>main.js\<close>. The driver keeps its clock in module variables; the three
  simulation objects it steps are parameters here (a record of their update functions and
  of the two tests that stop a one-shot preset, over any type of simulation state), since
  the accumulator logic does not look inside them. Camera, renderer and composer calls are
  left out.
\<close>

definition SIM_DT :: real where "SIM_DT = 0.004"
definition MAX_STEPS :: nat where "MAX_STEPS = 4"
definition MAX_WALL_DT :: real where "MAX_WALL_DT = 0.05"

record 'w Sim =
  sim_field_update :: "real \<Rightarrow> 'w \<Rightarrow> 'w"
  sim_particles_update :: "real \<Rightarrow> 'w \<Rightarrow> 'w"
  sim_consciousness_update :: "real \<Rightarrow> 'w \<Rightarrow> 'w"
  sim_allDead :: "'w \<Rightarrow> bool"
  sim_isQuiescent :: "'w \<Rightarrow> bool"

record guiState =
  mode :: string
  fieldSpeed :: real

record 'w Driver =
  lastTime :: real
  accumDt :: real
  frameCount :: nat
  simRunning :: bool
  consFrameAcc :: nat
  world :: 'w

text \<open>The body of the \<open>while\<close> loop: one simulation step.\<close>

definition animate_step :: "'w Sim \<Rightarrow> real \<Rightarrow> 'w Driver \<Rightarrow> 'w Driver" where
  "animate_step sim scaledDT d =
     (let w1 = sim_field_update sim scaledDT (world d);
          w2 = sim_particles_update sim scaledDT w1;
          c1 = consFrameAcc d + 1;
          (w3, c2) = (if c1 \<ge> 4 then (sim_consciousness_update sim (scaledDT * 4) w2, 0)
                      else (w2, c1))
      in d\<lparr>world := w3, consFrameAcc := c2,
           accumDt := accumDt d - SIM_DT, frameCount := frameCount d + 1\<rparr>)"

text \<open>The loop \<open>while (accumDt >= SIM_DT && steps < MAX_STEPS)\<close>; it returns \<open>steps\<close> too.\<close>

function animate_loop :: "'w Sim \<Rightarrow> real \<Rightarrow> nat \<Rightarrow> 'w Driver \<Rightarrow> nat \<times> 'w Driver" where
  "animate_loop sim scaledDT steps d =
     (if accumDt d \<ge> SIM_DT \<and> steps < MAX_STEPS
      then animate_loop sim scaledDT (steps + 1) (animate_step sim scaledDT d)
      else (steps, d))"
  by pat_completeness auto
termination
  by (relation "measure (\<lambda>(sim, scaledDT, steps, d). MAX_STEPS - steps)") auto

declare animate_loop.simps [simp del]

definition animate :: "'w Sim \<Rightarrow> guiState \<Rightarrow> real \<Rightarrow> 'w Driver \<Rightarrow> 'w Driver" where
  "animate sim gs now d =
     (let wallDt = min ((now - lastTime d) * 0.001) MAX_WALL_DT;
          d1 = d\<lparr>lastTime := now\<rparr>
      in if simRunning d1 then
           (let d2 = d1\<lparr>accumDt := accumDt d1 + wallDt\<rparr>;
                scaledDT = SIM_DT * fieldSpeed gs;
                (steps, d3) = animate_loop sim scaledDT 0 d2
            in if mode gs \<noteq> ''loop'' \<and> sim_allDead sim (world d3) \<and> sim_isQuiescent sim (world d3)
               then d3\<lparr>simRunning := False\<rparr>
               else d3)
         else d1)"

text \<open>
  A driver at time 0 with an empty accumulator, in the default \<open>loop\<close> mode, over a
  simulation that has no state.
\<close>

definition idle_sim :: "unit Sim" where
  "idle_sim =
     \<lparr>sim_field_update = (\<lambda>_ w. w), sim_particles_update = (\<lambda>_ w. w),
      sim_consciousness_update = (\<lambda>_ w. w),
      sim_allDead = (\<lambda>_. True), sim_isQuiescent = (\<lambda>_. True)\<rparr>"

definition loop_gui :: guiState where
  "loop_gui = \<lparr>mode = ''loop'', fieldSpeed = 1.0\<rparr>"

definition fresh_driver :: "unit Driver" where
  "fresh_driver =
     \<lparr>lastTime = 0, accumDt = 0, frameCount = 0, simRunning = True, consFrameAcc = 0, world = ()\<rparr>"

section \<open>ParticleSystem\<close>

text \<open>
  The pool of \<open>MAX\<close> slots (the constant is written \<open>MAX_PARTICLES\<close> here, as \<open>main.js\<close> names it). The typed arrays are functions on slot indices. The free list
  is a stack, written here with its top first (the constructor pushes \<open>MAX - 1\<close> down to
  \<open>0\<close>, so slot \<open>0\<close> is popped first). The \<open>active\<close> set is a JavaScript \<open>Set\<close>, which
  iterates in insertion order: a list without repetitions, new members at the end. The
  relation fields hold \<open>-1\<close> or a slot index, as integers. The reference to the field is
  part of the state (\<open>None\<close> for \<open>null\<close>); the coherence boost writes through it.
\<close>

definition MAX_PARTICLES :: nat where "MAX_PARTICLES = 300"
definition ANNIHILATION_RADIUS :: real where "ANNIHILATION_RADIUS = 1.5"
definition DRAG :: real where "DRAG = 0.99"
definition MAX_FLASHES :: nat where "MAX_FLASHES = 20"

definition TYPE_INACTIVE :: nat where "TYPE_INACTIVE = 0"
definition TYPE_ELECTRON :: nat where "TYPE_ELECTRON = 1"
definition TYPE_POSITRON :: nat where "TYPE_POSITRON = 2"
definition TYPE_PHOTON :: nat where "TYPE_PHOTON = 3"
definition TYPE_HIGGS :: nat where "TYPE_HIGGS = 4"
definition TYPE_ANTI_HIGGS :: nat where "TYPE_ANTI_HIGGS = 5"

datatype error = TypeError

record Flash =
  flash_x :: real
  flash_y :: real
  flash_z :: real
  flash_age :: real
  flash_intensity :: real

record ParticleSystem =
  px :: farray
  py :: farray
  pz :: farray
  vx :: farray
  vy :: farray
  vz :: farray
  colorR :: farray
  colorG :: farray
  colorB :: farray
  sizeArr :: farray
  alpha :: farray
  typeArr :: "nat \<Rightarrow> nat"
  age :: farray
  lifetime :: farray
  entangledWith :: "nat \<Rightarrow> int"
  pairWith :: "nat \<Rightarrow> int"
  freeList :: "nat list"
  active :: "nat list"
  annihilationFlashes :: "Flash list"
  flashHead :: nat
  spawnAccum :: real
  field :: "QuantumField option"
  injectionRate :: real

text \<open>The state the constructor builds.\<close>

definition new_ParticleSystem :: ParticleSystem where
  "new_ParticleSystem =
     \<lparr>px = (\<lambda>_. 0), py = (\<lambda>_. 0), pz = (\<lambda>_. 0),
      vx = (\<lambda>_. 0), vy = (\<lambda>_. 0), vz = (\<lambda>_. 0),
      colorR = (\<lambda>_. 0), colorG = (\<lambda>_. 0), colorB = (\<lambda>_. 0),
      sizeArr = (\<lambda>_. 0), alpha = (\<lambda>_. 0),
      typeArr = (\<lambda>_. 0), age = (\<lambda>_. 0), lifetime = (\<lambda>_. 0),
      entangledWith = (\<lambda>_. - 1), pairWith = (\<lambda>_. - 1),
      freeList = [0..<MAX_PARTICLES], active = [],
      annihilationFlashes =
        replicate MAX_FLASHES
          \<lparr>flash_x = 0, flash_y = 0, flash_z = 0, flash_age = 999, flash_intensity = 0\<rparr>,
      flashHead = 0, spawnAccum = 0, field = None, injectionRate = 4.0\<rparr>"

text \<open>\<open>Set.has\<close>, \<open>Set.add\<close> and \<open>Set.delete\<close> on the insertion-ordered list.\<close>

definition active_has :: "ParticleSystem \<Rightarrow> int \<Rightarrow> bool" where
  "active_has s k = (0 \<le> k \<and> nat k \<in> set (active s))"

definition set_add :: "nat \<Rightarrow> nat list \<Rightarrow> nat list" where
  "set_add x xs = (if x \<in> set xs then xs else xs @ [x])"

definition set_delete :: "nat \<Rightarrow> nat list \<Rightarrow> nat list" where
  "set_delete x xs = removeAll x xs"

text \<open>The operator \<open>| 0\<close>: truncation towards zero, then wrap-around to 32 bits, signed.\<close>

definition js_toInt32 :: "real \<Rightarrow> int" where
  "js_toInt32 x =
     (let t = (if x \<ge> 0 then \<lfloor>x\<rfloor> else \<lceil>x\<rceil>);
          m = t mod 2 ^ 32
      in if m \<ge> 2 ^ 31 then m - 2 ^ 32 else m)"

subsection \<open>Allocation\<close>

definition alloc :: "ParticleSystem \<Rightarrow> int \<times> ParticleSystem" where
  "alloc s =
     (case freeList s of
        [] \<Rightarrow> (- 1, s)
      | ix # rest \<Rightarrow> (int ix, s\<lparr>freeList := rest, active := set_add ix (active s)\<rparr>))"

definition free :: "nat \<Rightarrow> ParticleSystem \<Rightarrow> ParticleSystem" where
  "free ix s =
     s\<lparr>typeArr := (typeArr s)(ix := TYPE_INACTIVE),
       alpha := (alpha s)(ix := 0),
       entangledWith := (entangledWith s)(ix := - 1),
       pairWith := (pairWith s)(ix := - 1),
       active := set_delete ix (active s),
       freeList := ix # freeList s\<rparr>"

subsection \<open>Type helpers\<close>

definition setColor :: "nat \<Rightarrow> nat \<Rightarrow> ParticleSystem \<Rightarrow> ParticleSystem" where
  "setColor i t s =
     (if t = TYPE_ELECTRON then
        s\<lparr>colorR := (colorR s)(i := 0.2), colorG := (colorG s)(i := 0.4), colorB := (colorB s)(i := 1.0)\<rparr>
      else if t = TYPE_POSITRON then
        s\<lparr>colorR := (colorR s)(i := 1.0), colorG := (colorG s)(i := 0.2), colorB := (colorB s)(i := 0.2)\<rparr>
      else if t = TYPE_PHOTON then
        s\<lparr>colorR := (colorR s)(i := 1.0), colorG := (colorG s)(i := 0.85), colorB := (colorB s)(i := 0.2)\<rparr>
      else if t = TYPE_HIGGS then
        s\<lparr>colorR := (colorR s)(i := 0.7), colorG := (colorG s)(i := 0.2), colorB := (colorB s)(i := 1.0)\<rparr>
      else if t = TYPE_ANTI_HIGGS then
        s\<lparr>colorR := (colorR s)(i := 0.0), colorG := (colorG s)(i := 0.9), colorB := (colorB s)(i := 1.0)\<rparr>
      else s)"

definition typeSize :: "nat \<Rightarrow> real" where
  "typeSize t =
     (if t = TYPE_PHOTON then 6
      else if t = TYPE_HIGGS \<or> t = TYPE_ANTI_HIGGS then 8
      else 5)"

subsection \<open>Reading the field\<close>

text \<open>
  One of the eight candidates of \<open>_sampleHotspot\<close>: three draws, and the best energy so far
  with its cell.
\<close>

definition sampleHotspot_step ::
  "QuantumField \<Rightarrow> (real \<times> int \<times> int \<times> int) \<times> real stream \<Rightarrow> (real \<times> int \<times> int \<times> int) \<times> real stream" where
  "sampleHotspot_step f st =
     (case st of ((bestEnergy, bestX, bestY, bestZ), r) \<Rightarrow>
        (let x = js_toInt32 (shd r * real N); r1 = stl r;
             y = js_toInt32 (shd r1 * real N); r2 = stl r1;
             z = js_toInt32 (shd r2 * real N); r3 = stl r2;
             gi = nat (x + y * int N + z * int N2);
             h = higgs f gi; e = electron f gi; p = photon f gi;
             energy = h * h + e * e + p * p
         in if energy > bestEnergy then ((energy, x, y, z), r3)
            else ((bestEnergy, bestX, bestY, bestZ), r3)))"

text \<open>\<open>_sampleHotspot\<close> dereferences the field: with no field attached it throws.\<close>

definition sampleHotspot ::
  "ParticleSystem \<Rightarrow> real stream \<Rightarrow> error + ((real \<times> real \<times> real) \<times> real stream)" where
  "sampleHotspot s r =
     (case field s of
        None \<Rightarrow> Inl TypeError
      | Some f \<Rightarrow>
          (case (sampleHotspot_step f ^^ 8) ((- 1, 0, 0, 0), r) of
             ((bestEnergy, bestX, bestY, bestZ), r') \<Rightarrow>
               (let scale = (2 * WORLD_RANGE) / real N
                in Inr (((real_of_int bestX - real N / 2 + 0.5) * scale,
                         (real_of_int bestY - real N / 2 + 0.5) * scale,
                         (real_of_int bestZ - real N / 2 + 0.5) * scale), r'))))"

definition nearestCell :: "real \<Rightarrow> real \<Rightarrow> real \<Rightarrow> nat" where
  "nearestCell wx wy wz =
     (let scale = real N / (2 * WORLD_RANGE);
          x = max 0 (min (int N - 1) (js_toInt32 ((wx + WORLD_RANGE) * scale)));
          y = max 0 (min (int N - 1) (js_toInt32 ((wy + WORLD_RANGE) * scale)));
          z = max 0 (min (int N - 1) (js_toInt32 ((wz + WORLD_RANGE) * scale)))
      in nat (x + y * int N + z * int N2))"

definition higgsGrad :: "ParticleSystem \<Rightarrow> real \<Rightarrow> real \<Rightarrow> real \<Rightarrow> real \<times> real \<times> real" where
  "higgsGrad s wx wy wz =
     (case field s of
        None \<Rightarrow> (0, 0, 0)
      | Some fld \<Rightarrow>
          (let scale = real N / (2 * WORLD_RANGE);
               gx = max 1 (min (int N - 2) (js_toInt32 ((wx + WORLD_RANGE) * scale)));
               gy = max 1 (min (int N - 2) (js_toInt32 ((wy + WORLD_RANGE) * scale)));
               gz = max 1 (min (int N - 2) (js_toInt32 ((wz + WORLD_RANGE) * scale)));
               f = (\<lambda>k. higgs fld (nat k))
           in ((f ((gx + 1) + gy * int N + gz * int N2) - f ((gx - 1) + gy * int N + gz * int N2)) * 0.5,
               (f (gx + (gy + 1) * int N + gz * int N2) - f (gx + (gy - 1) * int N + gz * int N2)) * 0.5,
               (f (gx + gy * int N + (gz + 1) * int N2) - f (gx + gy * int N + (gz - 1) * int N2)) * 0.5)))"

subsection \<open>Spawning a virtual pair\<close>

text \<open>The body of the loop over \<open>[[a, typeA, 1], [b, typeB, -1]]\<close>, for one of the two.\<close>

definition spawn_init ::
  "real \<times> real \<times> real \<Rightarrow> real \<times> real \<times> real \<Rightarrow> real \<Rightarrow> nat \<Rightarrow> nat \<Rightarrow> real
     \<Rightarrow> ParticleSystem \<Rightarrow> real stream \<Rightarrow> ParticleSystem \<times> real stream" where
  "spawn_init c v life ix t sv s r =
     (case c of (cx, cy, cz) \<Rightarrow> case v of (vox, voy, voz) \<Rightarrow>
        (let jitter = 0.3;
             s1 = s\<lparr>px := (px s)(ix := cx + (shd r - 0.5) * jitter)\<rparr>; r1 = stl r;
             s2 = s1\<lparr>py := (py s1)(ix := cy + (shd r1 - 0.5) * jitter)\<rparr>; r2 = stl r1;
             s3 = s2\<lparr>pz := (pz s2)(ix := cz + (shd r2 - 0.5) * jitter)\<rparr>; r3 = stl r2;
             s4 = s3\<lparr>vx := (vx s3)(ix := sv * vox),
                     vy := (vy s3)(ix := sv * voy),
                     vz := (vz s3)(ix := sv * voz),
                     typeArr := (typeArr s3)(ix := t mod 256),
                     age := (age s3)(ix := 0),
                     lifetime := (lifetime s3)(ix := life),
                     alpha := (alpha s3)(ix := 1.0),
                     sizeArr := (sizeArr s3)(ix := typeSize t)\<rparr>
         in (setColor ix t s4, r3)))"

definition spawnPair ::
  "nat \<Rightarrow> nat \<Rightarrow> ParticleSystem \<Rightarrow> real stream \<Rightarrow> error + (ParticleSystem \<times> real stream)" where
  "spawnPair typeA typeB s r =
     (case sampleHotspot s r of
        Inl e \<Rightarrow> Inl e
      | Inr (c, r0) \<Rightarrow>
          (let (a, s1) = alloc s;
               (b, s2) = alloc s1
           in if a = - 1 \<or> b = - 1 then
                (let s3 = (if a \<noteq> - 1 then free (nat a) s2 else s2);
                     s4 = (if b \<noteq> - 1 then free (nat b) s3 else s3)
                 in Inr (s4, r0))
              else
                (let speed = 1.5 + shd r0 * 2.0; r1 = stl r0;
                     theta = shd r1 * pi * 2; r2 = stl r1;
                     phiAngle = arccos (2 * shd r2 - 1); r3 = stl r2;
                     vox = speed * sin phiAngle * cos theta;
                     voy = speed * sin phiAngle * sin theta;
                     voz = speed * cos phiAngle;
                     life = 1.0 + shd r3 * 3.0; r4 = stl r3;
                     (s5, r5) = spawn_init c (vox, voy, voz) life (nat a) typeA 1 s2 r4;
                     (s6, r6) = spawn_init c (vox, voy, voz) life (nat b) typeB (- 1) s5 r5;
                     s7 = s6\<lparr>pairWith := (pairWith s6)(nat a := b)\<rparr>;
                     s8 = s7\<lparr>pairWith := (pairWith s7)(nat b := a)\<rparr>;
                     s9 = s8\<lparr>entangledWith := (entangledWith s8)(nat a := b)\<rparr>;
                     s10 = s9\<lparr>entangledWith := (entangledWith s9)(nat b := a)\<rparr>
                 in Inr (s10, r6))))"

subsection \<open>Annihilation photons and flashes\<close>

text \<open>The body of the photon loop after a successful allocation of slot \<open>i\<close>: four draws.\<close>

definition photon_init ::
  "nat \<Rightarrow> real \<Rightarrow> real \<Rightarrow> real \<Rightarrow> ParticleSystem \<Rightarrow> real stream \<Rightarrow> ParticleSystem \<times> real stream" where
  "photon_init i x y z s1 r =
     (let theta = shd r * pi * 2; r1 = stl r;
          phiAngle = arccos (2 * shd r1 - 1); r2 = stl r1;
          speed = 3.0 + shd r2 * 2.0; r3 = stl r2;
          s2 = s1\<lparr>px := (px s1)(i := x), py := (py s1)(i := y), pz := (pz s1)(i := z),
                  vx := (vx s1)(i := speed * sin phiAngle * cos theta),
                  vy := (vy s1)(i := speed * sin phiAngle * sin theta),
                  vz := (vz s1)(i := speed * cos phiAngle),
                  typeArr := (typeArr s1)(i := TYPE_PHOTON),
                  age := (age s1)(i := 0),
                  lifetime := (lifetime s1)(i := 0.4 + shd r3 * 0.4),
                  alpha := (alpha s1)(i := 1.0),
                  sizeArr := (sizeArr s1)(i := 6)\<rparr>;
          r4 = stl r3;
          s3 = setColor i TYPE_PHOTON s2;
          s4 = s3\<lparr>entangledWith := (entangledWith s3)(i := - 1),
                  pairWith := (pairWith s3)(i := - 1)\<rparr>
      in (s4, r4))"

text \<open>The loop \<open>for (k = 0; k < 3; k++)\<close>, counted down; it stops when the pool is exhausted.\<close>

fun spawnAnnihilationPhotons_loop ::
  "nat \<Rightarrow> real \<Rightarrow> real \<Rightarrow> real \<Rightarrow> ParticleSystem \<Rightarrow> real stream \<Rightarrow> ParticleSystem \<times> real stream" where
  "spawnAnnihilationPhotons_loop 0 x y z s r = (s, r)"
| "spawnAnnihilationPhotons_loop (Suc k) x y z s r =
     (case alloc s of (ix, s1) \<Rightarrow>
        if ix = - 1 then (s1, r)
        else (case photon_init (nat ix) x y z s1 r of
                (s4, r4) \<Rightarrow> spawnAnnihilationPhotons_loop k x y z s4 r4))"

definition spawnAnnihilationPhotons ::
  "real \<Rightarrow> real \<Rightarrow> real \<Rightarrow> ParticleSystem \<Rightarrow> real stream \<Rightarrow> ParticleSystem \<times> real stream" where
  "spawnAnnihilationPhotons x y z s r = spawnAnnihilationPhotons_loop 3 x y z s r"

definition emitFlash :: "real \<Rightarrow> real \<Rightarrow> real \<Rightarrow> ParticleSystem \<Rightarrow> ParticleSystem" where
  "emitFlash x y z s =
     s\<lparr>annihilationFlashes := (annihilationFlashes s)
          [flashHead s mod MAX_FLASHES :=
             \<lparr>flash_x = x, flash_y = y, flash_z = z, flash_age = 0, flash_intensity = 1.0\<rparr>],
       flashHead := flashHead s + 1\<rparr>"

subsection \<open>The main update\<close>

text \<open>
  The injection loop \<open>while (this._spawnAccum >= 1.0)\<close>. \<open>spawnPair\<close> neither reads nor
  writes the accumulator, so the loop carries it as a variable and \<open>update\<close> stores it back.
\<close>

function inject_loop ::
  "real \<Rightarrow> ParticleSystem \<Rightarrow> real stream \<Rightarrow> error + (real \<times> ParticleSystem \<times> real stream)" where
  "inject_loop acc s r =
     (if acc \<ge> 1.0 then
        (case (if shd r < 0.5 then spawnPair TYPE_ELECTRON TYPE_POSITRON s (stl r)
               else if shd r < 0.8 then spawnPair TYPE_HIGGS TYPE_ANTI_HIGGS s (stl r)
               else spawnPair TYPE_ELECTRON TYPE_POSITRON s (stl r)) of
           Inl e \<Rightarrow> Inl e
         | Inr (s', r') \<Rightarrow> inject_loop (acc - 1.0) s' r')
      else Inr (acc, s, r))"
  by pat_completeness auto
termination
  by (relation "measure (\<lambda>(acc, s, r). nat \<lceil>acc\<rceil>)")
    (auto simp: zless_nat_eq_int_zless)

declare inject_loop.simps [simp del]

text \<open>
  The first half of the loop body over the active slots, in the stages the source marks
  with comments: the Higgs gradient force, drag, the move, the periodic boundary wrap (two
  tests per axis, in sequence) and the fade near the end of life.
\<close>

definition apply_force :: "real \<Rightarrow> nat \<Rightarrow> ParticleSystem \<Rightarrow> ParticleSystem" where
  "apply_force dt i s =
     (case higgsGrad s (px s i) (py s i) (pz s i) of (gx, gy, gz) \<Rightarrow>
        (let force = 0.3
         in s\<lparr>vx := (vx s)(i := vx s i - gx * force * dt),
              vy := (vy s)(i := vy s i - gy * force * dt),
              vz := (vz s)(i := vz s i - gz * force * dt)\<rparr>))"

definition apply_drag :: "nat \<Rightarrow> ParticleSystem \<Rightarrow> ParticleSystem" where
  "apply_drag i s =
     s\<lparr>vx := (vx s)(i := vx s i * DRAG),
       vy := (vy s)(i := vy s i * DRAG),
       vz := (vz s)(i := vz s i * DRAG)\<rparr>"

definition advance_position :: "real \<Rightarrow> nat \<Rightarrow> ParticleSystem \<Rightarrow> ParticleSystem" where
  "advance_position dt i s =
     s\<lparr>px := (px s)(i := px s i + vx s i * dt),
       py := (py s)(i := py s i + vy s i * dt),
       pz := (pz s)(i := pz s i + vz s i * dt)\<rparr>"

definition wrap_x :: "nat \<Rightarrow> ParticleSystem \<Rightarrow> ParticleSystem" where
  "wrap_x i s =
     (let W = WORLD_RANGE;
          s1 = (if px s i > W then s\<lparr>px := (px s)(i := px s i - 2 * W)\<rparr> else s)
      in if px s1 i < - W then s1\<lparr>px := (px s1)(i := px s1 i + 2 * W)\<rparr> else s1)"

definition wrap_y :: "nat \<Rightarrow> ParticleSystem \<Rightarrow> ParticleSystem" where
  "wrap_y i s =
     (let W = WORLD_RANGE;
          s1 = (if py s i > W then s\<lparr>py := (py s)(i := py s i - 2 * W)\<rparr> else s)
      in if py s1 i < - W then s1\<lparr>py := (py s1)(i := py s1 i + 2 * W)\<rparr> else s1)"

definition wrap_z :: "nat \<Rightarrow> ParticleSystem \<Rightarrow> ParticleSystem" where
  "wrap_z i s =
     (let W = WORLD_RANGE;
          s1 = (if pz s i > W then s\<lparr>pz := (pz s)(i := pz s i - 2 * W)\<rparr> else s)
      in if pz s1 i < - W then s1\<lparr>pz := (pz s1)(i := pz s1 i + 2 * W)\<rparr> else s1)"

definition fade :: "nat \<Rightarrow> ParticleSystem \<Rightarrow> ParticleSystem" where
  "fade i s =
     (let remaining = lifetime s i - age s i
      in if remaining < 0.5 then s\<lparr>alpha := (alpha s)(i := max 0 (remaining / 0.5))\<rparr> else s)"

definition move_particle :: "real \<Rightarrow> nat \<Rightarrow> ParticleSystem \<Rightarrow> ParticleSystem" where
  "move_particle dt i s =
     (let s1 = s\<lparr>age := (age s)(i := age s i + dt)\<rparr>;
          s2 = apply_force dt i s1;
          s3 = apply_drag i s2;
          s4 = advance_position dt i s3;
          s5 = wrap_x i s4;
          s6 = wrap_y i s5;
          s7 = wrap_z i s6
      in fade i s7)"

text \<open>
  The whole loop body for the active slot \<open>i\<close>: the move, then the natural-death test, then
  the annihilation test against the pair partner. \<open>toAnnihilate\<close> grows at its end.
\<close>

definition update_particle ::
  "real \<Rightarrow> nat \<Rightarrow> ParticleSystem \<times> (nat \<times> int \<times> bool) list
     \<Rightarrow> ParticleSystem \<times> (nat \<times> int \<times> bool) list" where
  "update_particle dt i st =
     (case st of (s, toAnnihilate) \<Rightarrow>
        if typeArr s i = TYPE_INACTIVE then (s, toAnnihilate)
        else
          (let s1 = move_particle dt i s
           in if age s1 i \<ge> lifetime s1 i then
                (let partner = entangledWith s1 i
                 in if partner \<noteq> - 1 \<and> active_has s1 partner
                    then (s1, toAnnihilate @ [(i, partner, False)])
                    else (s1, toAnnihilate @ [(i, - 1, False)]))
              else
                (let pair = pairWith s1 i
                 in if pair \<noteq> - 1 \<and> pair > int i \<and> active_has s1 pair then
                      (let dx = px s1 i - px s1 (nat pair);
                           dy = py s1 i - py s1 (nat pair);
                           dz = pz s1 i - pz s1 (nat pair);
                           dist2 = dx * dx + dy * dy + dz * dz
                       in if dist2 < ANNIHILATION_RADIUS * ANNIHILATION_RADIUS
                          then (s1, toAnnihilate @ [(i, pair, True)])
                          else (s1, toAnnihilate))
                    else (s1, toAnnihilate))))"

text \<open>The body of the loop over \<open>toAnnihilate\<close>, for one entry \<open>[a, b, doFlash]\<close>.\<close>

definition boost_coherence :: "real \<Rightarrow> real \<Rightarrow> real \<Rightarrow> ParticleSystem \<Rightarrow> ParticleSystem" where
  "boost_coherence ax ay az s =
     (case field s of
        None \<Rightarrow> s
      | Some f \<Rightarrow>
          (let ci = nearestCell ax ay az
           in s\<lparr>field := Some (f\<lparr>orchCoherence :=
                   (orchCoherence f)(ci := min 1 (orchCoherence f ci + 0.4))\<rparr>)\<rparr>))"

definition process_entry ::
  "nat \<times> int \<times> bool \<Rightarrow> ParticleSystem \<times> real stream \<Rightarrow> ParticleSystem \<times> real stream" where
  "process_entry e st =
     (case e of (a, b, doFlash) \<Rightarrow> case st of (s, r) \<Rightarrow>
        if a \<notin> set (active s) then (s, r)
        else
          (let ax = (px s a + (if b \<noteq> - 1 then px s (nat b) else px s a)) * 0.5;
               ay = (py s a + (if b \<noteq> - 1 then py s (nat b) else py s a)) * 0.5;
               az = (pz s a + (if b \<noteq> - 1 then pz s (nat b) else pz s a)) * 0.5;
               (s1, r1) = (if doFlash then
                             (case spawnAnnihilationPhotons ax ay az s r of
                                (p, r') \<Rightarrow> (boost_coherence ax ay az (emitFlash ax ay az p), r'))
                           else (s, r));
               s2 = free a s1;
               s3 = (if b \<noteq> - 1 \<and> active_has s2 b then free (nat b) s2 else s2)
           in (s3, r1)))"

definition age_flash :: "real \<Rightarrow> Flash \<Rightarrow> Flash" where
  "age_flash dt f = (if flash_age f < 2 then f\<lparr>flash_age := flash_age f + dt\<rparr> else f)"

definition ParticleSystem_update ::
  "real \<Rightarrow> ParticleSystem \<Rightarrow> real stream \<Rightarrow> error + (ParticleSystem \<times> real stream)" where
  "ParticleSystem_update dt s r =
     (let s0 = s\<lparr>spawnAccum := spawnAccum s + injectionRate s * dt\<rparr>
      in case inject_loop (spawnAccum s0) s0 r of
           Inl e \<Rightarrow> Inl e
         | Inr (acc, s1, r1) \<Rightarrow>
             (let s2 = s1\<lparr>spawnAccum := acc\<rparr>;
                  (s3, toAnnihilate) = fold (update_particle dt) (active s2) (s2, []);
                  (s4, r4) = fold process_entry toAnnihilate (s3, r1);
                  s5 = s4\<lparr>annihilationFlashes := map (age_flash dt) (annihilationFlashes s4)\<rparr>
              in Inr (s5, r4)))"

definition allDead :: "ParticleSystem \<Rightarrow> bool" where
  "allDead s = (length (active s) = 0)"

subsection \<open>The invariant of the pool\<close>

text \<open>
  What the constructor establishes and \<open>spawnPair\<close> and \<open>update\<close> keep: the free list and
  the active set have no repetitions and share no slot; a slot that is not active is inert
  (type inactive, alpha 0, no partner); the two relation fields agree; and a partner field
  that is not \<open>-1\<close> names another slot, active, whose own partner field points back.
\<close>

definition pool_inv :: "ParticleSystem \<Rightarrow> bool" where
  "pool_inv s \<longleftrightarrow>
     distinct (freeList s) \<and> distinct (active s) \<and> set (freeList s) \<inter> set (active s) = {} \<and>
     (\<forall>j. j \<notin> set (active s) \<longrightarrow>
        typeArr s j = TYPE_INACTIVE \<and> alpha s j = 0 \<and> entangledWith s j = - 1 \<and> pairWith s j = - 1) \<and>
     (\<forall>j. entangledWith s j = pairWith s j) \<and>
     (\<forall>j. pairWith s j = - 1 \<or>
        (0 \<le> pairWith s j \<and> pairWith s j \<noteq> int j \<and>
         nat (pairWith s j) \<in> set (active s) \<and>
         pairWith s (nat (pairWith s j)) = int j))"

text \<open>
  The pairing-symmetry property in the words of the specification: the partner field of a
  live slot, when it is not \<open>-1\<close>, names a live slot whose partner field points back.
\<close>

definition pairing_symmetric :: "ParticleSystem \<Rightarrow> bool" where
  "pairing_symmetric s \<longleftrightarrow>
     (\<forall>i \<in> set (active s). pairWith s i \<noteq> - 1 \<longrightarrow>
        active_has s (pairWith s i) \<and> pairWith s (nat (pairWith s i)) = int i)"

text \<open>
  A slot is gone when it is not active, or holds a photon born in the current call
  (the slot has been handed out again by \<open>_spawnAnnihilationPhotons\<close>).
\<close>

definition gone :: "ParticleSystem \<Rightarrow> nat \<Rightarrow> bool" where
  "gone s j \<longleftrightarrow>
     j \<notin> set (active s) \<or> (pairWith s j = - 1 \<and> typeArr s j = TYPE_PHOTON \<and> age s j = 0)"

text \<open>
  An entry \<open>[a, b, doFlash]\<close> of \<open>toAnnihilate\<close> is current when \<open>a\<close> is active and \<open>b\<close> is
  its partner field, and settled when \<open>a\<close> and \<open>b\<close> are gone.
\<close>

definition entry_settled :: "ParticleSystem \<Rightarrow> nat \<times> int \<times> bool \<Rightarrow> bool" where
  "entry_settled s e \<longleftrightarrow>
     (case e of (a, b, doFlash) \<Rightarrow> gone s a \<and> (b = - 1 \<or> (0 \<le> b \<and> gone s (nat b))))"

definition entry_ok :: "ParticleSystem \<Rightarrow> nat \<times> int \<times> bool \<Rightarrow> bool" where
  "entry_ok s e \<longleftrightarrow>
     (case e of (a, b, doFlash) \<Rightarrow> (a \<in> set (active s) \<and> pairWith s a = b) \<or> entry_settled s e)"

text \<open>
  What \<open>_spawnAnnihilationPhotons\<close> may change between two states: slots are only added
  to the active set, the slots that were active keep their type and age, the partner fields
  stay as they are, and a slot that was gone stays gone.
\<close>

definition photons_ok :: "ParticleSystem \<Rightarrow> ParticleSystem \<Rightarrow> bool" where
  "photons_ok s s' \<longleftrightarrow>
     pool_inv s' \<and> set (active s) \<subseteq> set (active s') \<and>
     (\<forall>j \<in> set (active s). typeArr s' j = typeArr s j \<and> age s' j = age s j) \<and>
     (\<forall>j. gone s j \<longrightarrow> gone s' j) \<and>
     pairWith s' = pairWith s"

text \<open>
  The two halves of the body of the loop over \<open>toAnnihilate\<close> for an entry whose first
  slot is active: the flash part (photons, flash record, coherence boost) and the two frees.
\<close>

definition flash_part :: "nat \<Rightarrow> int \<Rightarrow> bool \<Rightarrow> ParticleSystem \<Rightarrow> real stream \<Rightarrow> ParticleSystem \<times> real stream" where
  "flash_part a b doFlash s r =
     (let ax = (px s a + (if b \<noteq> - 1 then px s (nat b) else px s a)) * 0.5;
          ay = (py s a + (if b \<noteq> - 1 then py s (nat b) else py s a)) * 0.5;
          az = (pz s a + (if b \<noteq> - 1 then pz s (nat b) else pz s a)) * 0.5
      in if doFlash then
           (case spawnAnnihilationPhotons ax ay az s r of
              (p, r') \<Rightarrow> (boost_coherence ax ay az (emitFlash ax ay az p), r'))
         else (s, r))"

definition free_entry :: "nat \<Rightarrow> int \<Rightarrow> ParticleSystem \<Rightarrow> ParticleSystem" where
  "free_entry a b s1 =
     (let s2 = free a s1
      in if b \<noteq> - 1 \<and> active_has s2 b then free (nat b) s2 else s2)"

text \<open>
  The coherence channel of \<open>f'\<close> comes from that of \<open>f\<close> by boosts only: a cell is
  unchanged, or it has not fallen below its old value capped at 1 and is at most 1.
\<close>

definition coherence_boosted :: "QuantumField \<Rightarrow> QuantumField \<Rightarrow> bool" where
  "coherence_boosted f f' \<longleftrightarrow>
     (\<forall>c. orchCoherence f' c = orchCoherence f c \<or>
          (min 1 (orchCoherence f c) \<le> orchCoherence f' c \<and> orchCoherence f' c \<le> 1))"

text \<open>
  The midpoint of two slots at the time the death list is processed, when both have moved.
\<close>

definition pair_midpoint :: "real \<Rightarrow> nat \<Rightarrow> nat \<Rightarrow> ParticleSystem \<Rightarrow> real \<times> real \<times> real" where
  "pair_midpoint dt i j s =
     (let s2 = move_particle dt j (move_particle dt i s)
      in ((px s2 i + px s2 j) * 0.5, (py s2 i + py s2 j) * 0.5, (pz s2 i + pz s2 j) * 0.5))"

text \<open>
  The squared distance the annihilation test of slot \<open>i\<close> computes against its partner
  \<open>j\<close>: slot \<open>i\<close> has moved in this call, slot \<open>j\<close> (later in the iteration) has not.
\<close>

definition pair_dist2 :: "real \<Rightarrow> nat \<Rightarrow> nat \<Rightarrow> ParticleSystem \<Rightarrow> real" where
  "pair_dist2 dt i j s =
     (px (move_particle dt i s) i - px (move_particle dt i s) j) *
     (px (move_particle dt i s) i - px (move_particle dt i s) j) +
     (py (move_particle dt i s) i - py (move_particle dt i s) j) *
     (py (move_particle dt i s) i - py (move_particle dt i s) j) +
     (pz (move_particle dt i s) i - pz (move_particle dt i s) j) *
     (pz (move_particle dt i s) i - pz (move_particle dt i s) j)"

text \<open>
  Slot \<open>p\<close> holds a photon as \<open>_spawnAnnihilationPhotons\<close> leaves it: live, of the
  photon type, at the given point, of age zero, fully opaque and unpaired.
\<close>

definition photon_born :: "ParticleSystem \<Rightarrow> real \<times> real \<times> real \<Rightarrow> nat \<Rightarrow> bool" where
  "photon_born s m p \<longleftrightarrow>
     p \<in> set (active s) \<and> typeArr s p = TYPE_PHOTON \<and>
     (px s p, py s p, pz s p) = m \<and> age s p = 0 \<and> alpha s p = 1 \<and>
     pairWith s p = - 1 \<and> entangledWith s p = - 1"

text \<open>The field with the coherence of cell \<open>c\<close> raised by 0.4 and capped at 1.\<close>

definition boost_cell :: "QuantumField \<Rightarrow> nat \<Rightarrow> QuantumField" where
  "boost_cell f c = f\<lparr>orchCoherence := (orchCoherence f)(c := min 1 (orchCoherence f c + 0.4))\<rparr>"

subsection \<open>Concrete pools\<close>

text \<open>
  The pool with all 300 slots active (unpaired photons) and the vacuum field attached.
\<close>

definition full_pool :: ParticleSystem where
  "full_pool =
     new_ParticleSystem\<lparr>freeList := [], active := [0..<MAX_PARTICLES],
       typeArr := (\<lambda>j. if j < MAX_PARTICLES then TYPE_PHOTON else TYPE_INACTIVE),
       alpha := (\<lambda>j. if j < MAX_PARTICLES then 1 else 0),
       lifetime := (\<lambda>j. 1),
       field := Some vacuum_field\<rparr>"

text \<open>The same pool with slot 299 still free: room for one particle, not for a pair.\<close>

definition almost_full_pool :: ParticleSystem where
  "almost_full_pool =
     new_ParticleSystem\<lparr>freeList := [299], active := [0..<299],
       typeArr := (\<lambda>j. if j < 299 then TYPE_PHOTON else TYPE_INACTIVE),
       alpha := (\<lambda>j. if j < 299 then 1 else 0),
       lifetime := (\<lambda>j. 1),
       field := Some vacuum_field\<rparr>"

text \<open>
  A pool holding one pair and no field, with injection switched off: slot 0 is about to reach
  its lifetime, its partner in slot 1 is young and ten units away.
\<close>

definition pair_pool :: ParticleSystem where
  "pair_pool =
     new_ParticleSystem\<lparr>freeList := [2..<MAX_PARTICLES], active := [0, 1],
       typeArr := (\<lambda>_. TYPE_INACTIVE)(0 := TYPE_ELECTRON, 1 := TYPE_POSITRON),
       alpha := (\<lambda>_. 0)(0 := 1, 1 := 1),
       age := (\<lambda>_. 0)(0 := 0.9),
       lifetime := (\<lambda>_. 0)(0 := 1, 1 := 4),
       px := (\<lambda>_. 0)(1 := 10),
       entangledWith := (\<lambda>_. - 1)(0 := 1, 1 := 0),
       pairWith := (\<lambda>_. - 1)(0 := 1, 1 := 0),
       injectionRate := 0\<rparr>"

text \<open>The pool after one update of 0.2 s: both slots moved, then freed.\<close>

definition pair_pool_after :: ParticleSystem where
  "pair_pool_after =
     (free 1 (free 0 (move_particle 0.2 1 (move_particle 0.2 0 (pair_pool\<lparr>spawnAccum := 0\<rparr>)))))
       \<lparr>annihilationFlashes := map (age_flash 0.2) (annihilationFlashes pair_pool)\<rparr>"

text \<open>
  A pool holding one fresh pair one unit apart, at rest, with the vacuum field attached and
  injection switched off; and the same pair about to reach its lifetime.
\<close>

definition close_pair_pool :: ParticleSystem where
  "close_pair_pool =
     new_ParticleSystem\<lparr>freeList := 2 # 3 # 4 # [5..<MAX_PARTICLES], active := [0, 1],
       typeArr := (\<lambda>_. TYPE_INACTIVE)(0 := TYPE_ELECTRON, 1 := TYPE_POSITRON),
       alpha := (\<lambda>_. 0)(0 := 1, 1 := 1),
       lifetime := (\<lambda>_. 0)(0 := 2, 1 := 2),
       px := (\<lambda>_. 0)(1 := 1),
       entangledWith := (\<lambda>_. - 1)(0 := 1, 1 := 0),
       pairWith := (\<lambda>_. - 1)(0 := 1, 1 := 0),
       field := Some vacuum_field,
       injectionRate := 0\<rparr>"

definition old_pair_pool :: ParticleSystem where
  "old_pair_pool = close_pair_pool\<lparr>age := (\<lambda>_. 0)(0 := 1.999, 1 := 1.999)\<rparr>"

section \<open>ShapeConstraint\<close>

text \<open>
  An \<open>ArrayBuffer\<close> is the list of its bytes. Three services of the host are not code of
  the repository and are parameters of the embedding: \<open>DataView.getFloat32\<close> (little
  endian, as a function of the four bytes read), \<open>TextDecoder.decode\<close> (from bytes to
  UTF-16 code units) and the conversion of a string to a number by unary plus. The
  exceptions that can arise are the \<open>Error\<close> objects the parsers throw, with their message,
  the \<open>RangeError\<close> of a \<open>DataView\<close> read outside the buffer, and the \<open>TypeError\<close> of
  reading a property of \<open>null\<close>.
\<close>

datatype exn = Error string | RangeError | NullError

record Platform =
  getFloat32 :: "nat list \<Rightarrow> real"
  decode :: "nat list \<Rightarrow> nat list"
  toNumber :: "nat list \<Rightarrow> real"

text \<open>\<open>err.message\<close>; for the two built-in errors the text is the engine's.\<close>

fun message :: "exn \<Rightarrow> string" where
  "message (Error m) = m"
| "message RangeError = ''Offset is outside the bounds of the DataView''"
| "message NullError = ''Cannot read properties of null''"

definition CELL_SIZE :: real where "CELL_SIZE = (2 * WORLD_RANGE) / real N"

subsection \<open>STL parsing\<close>

text \<open>\<open>view.getUint32(off, true)\<close>: four bytes, little endian; outside the buffer it throws.\<close>

definition getUint32 :: "nat list \<Rightarrow> nat \<Rightarrow> exn + nat" where
  "getUint32 buf off =
     (if off + 4 \<le> length buf
      then Inr (buf ! off + 256 * buf ! (off + 1) + 65536 * buf ! (off + 2)
                + 16777216 * buf ! (off + 3))
      else Inl RangeError)"

text \<open>
  The loops of \<open>parseBinarySTL\<close> with their running offset: one vertex (three floats, the
  offset moves on by 12), one triangle (skip the normal, three vertices, skip the attribute
  count). The writes \<open>verts[t*9 + v*3 + k]\<close> fill the array in increasing order, so the
  list grows at its end. All reads are inside the buffer, by the length test before the loop.
\<close>

definition read_vertex :: "Platform \<Rightarrow> nat list \<Rightarrow> nat \<times> real list \<Rightarrow> nat \<times> real list" where
  "read_vertex p buf st =
     (case st of (off, verts) \<Rightarrow>
        (off + 12,
         verts @ [getFloat32 p (take 4 (drop off buf)),
                  getFloat32 p (take 4 (drop (off + 4) buf)),
                  getFloat32 p (take 4 (drop (off + 8) buf))]))"

definition read_triangle :: "Platform \<Rightarrow> nat list \<Rightarrow> nat \<times> real list \<Rightarrow> nat \<times> real list" where
  "read_triangle p buf st =
     (case st of (off, verts) \<Rightarrow>
        (case (read_vertex p buf ^^ 3) (off + 12, verts) of
           (off', verts') \<Rightarrow> (off' + 2, verts')))"

definition parseBinarySTL :: "Platform \<Rightarrow> nat list \<Rightarrow> exn + (real list \<times> nat)" where
  "parseBinarySTL p buf =
     (case getUint32 buf 80 of
        Inl e \<Rightarrow> Inl e
      | Inr cnt \<Rightarrow>
          if length buf < 84 + cnt * 50 then Inl (Error ''Truncated binary STL'')
          else Inr (snd ((read_triangle p buf ^^ cnt) (84, [])), cnt))"

text \<open>
  The regular expression \<open>/vertex\s+([\d.eE+\-]+)\s+([\d.eE+\-]+)\s+([\d.eE+\-]+)/gi\<close> on
  a list of code units. With the \<open>i\<close> flag a code unit matches a letter of the pattern when
  its canonical (upper case) form does; no code unit outside ASCII is canonicalised into
  ASCII, so only the ASCII letters count. The class \<open>\s\<close> is the white space of ECMAScript.
  White space and the characters of a number are disjoint classes, so the greedy match of
  each \<open>+\<close> is the longest run and backtracking finds no other match at the same start.
\<close>

definition canonicalize :: "nat \<Rightarrow> nat" where
  "canonicalize c = (if 97 \<le> c \<and> c \<le> 122 then c - 32 else c)"

definition is_space :: "nat \<Rightarrow> bool" where
  "is_space c \<longleftrightarrow>
     (9 \<le> c \<and> c \<le> 13) \<or> c = 32 \<or> c = 160 \<or> c = 5760 \<or> (8192 \<le> c \<and> c \<le> 8202) \<or>
     c = 8232 \<or> c = 8233 \<or> c = 8239 \<or> c = 8287 \<or> c = 12288 \<or> c = 65279"

definition is_numeric :: "nat \<Rightarrow> bool" where
  "is_numeric c \<longleftrightarrow> (48 \<le> c \<and> c \<le> 57) \<or> c = 46 \<or> c = 101 \<or> c = 69 \<or> c = 43 \<or> c = 45"

text \<open>The word \<open>VERTEX\<close> in code units.\<close>

definition vertex_word :: "nat list" where
  "vertex_word = [86, 69, 82, 84, 69, 88]"

text \<open>
  One attempt at the start of \<open>t\<close>: the three captured groups and the text after the match.
\<close>

definition match_vertex :: "nat list \<Rightarrow> ((nat list \<times> nat list \<times> nat list) \<times> nat list) option" where
  "match_vertex t =
     (if map canonicalize (take 6 t) \<noteq> vertex_word then None
      else
        (let t1 = drop 6 t;
             t2 = dropWhile is_space t1;
             m1 = takeWhile is_numeric t2;
             t3 = dropWhile is_numeric t2;
             t4 = dropWhile is_space t3;
             m2 = takeWhile is_numeric t4;
             t5 = dropWhile is_numeric t4;
             t6 = dropWhile is_space t5;
             m3 = takeWhile is_numeric t6;
             t7 = dropWhile is_numeric t6
         in if takeWhile is_space t1 = [] \<or> m1 = [] \<or> takeWhile is_space t3 = [] \<or> m2 = [] \<or>
               takeWhile is_space t5 = [] \<or> m3 = []
            then None
            else Some ((m1, m2, m3), t7)))"

text \<open>
  The loop \<open>while ((m = re.exec(text)) !== null)\<close> with the global flag: the next match is
  searched from the end of the last one, one start position after the other.
\<close>

function vertex_records :: "nat list \<Rightarrow> (nat list \<times> nat list \<times> nat list) list" where
  "vertex_records t =
     (if t = [] then []
      else (case match_vertex t of
              Some (m, rest) \<Rightarrow> m # vertex_records rest
            | None \<Rightarrow> vertex_records (tl t)))"
  by pat_completeness auto
termination
proof (relation "measure length")
  show "wf (measure length)" by simp
next
  fix t :: "nat list"
  assume "t \<noteq> []"
  then show "(tl t, t) \<in> measure length" by (cases t) simp_all
next
  fix t :: "nat list" and x2 x y
  assume m: "match_vertex t = Some x2" and x: "(x, y) = x2"
  from m have w: "map canonicalize (take 6 t) = vertex_word"
    by (simp add: match_vertex_def split: if_splits)
  then have "length (map canonicalize (take 6 t)) = length vertex_word" by simp
  then have "min (length t) 6 = 6" by (simp add: vertex_word_def)
  then have l: "length (drop 6 t) < length t" by auto
  from m x w have "y = dropWhile is_numeric (dropWhile is_space (dropWhile is_numeric
      (dropWhile is_space (dropWhile is_numeric (dropWhile is_space (drop 6 t))))))"
    by (auto simp: match_vertex_def Let_def split: if_splits)
  moreover have "\<And>P (xs :: nat list) n. length xs \<le> n \<Longrightarrow> length (dropWhile P xs) \<le> n"
    using length_dropWhile_le order_trans by blast
  ultimately have "length y \<le> length (drop 6 t)" by simp
  with l show "(y, t) \<in> measure length" by simp
qed

declare vertex_records.simps [simp del]

definition parseASCIISTL :: "Platform \<Rightarrow> nat list \<Rightarrow> exn + (real list \<times> nat)" where
  "parseASCIISTL p buf =
     (let str = decode p buf;
          arr = concat (map (\<lambda>(m1, m2, m3). [toNumber p m1, toNumber p m2, toNumber p m3])
                  (vertex_records str))
      in if length arr < 9 then Inl (Error ''No vertices in ASCII STL'')
         else (let cnt = length arr div 9 in Inr (take (cnt * 9) arr, cnt)))"

text \<open>
  \<open>parseSTL\<close>: the \<open>try\<close> block returns the binary parse, or ends without returning, or
  throws; in the last two cases the function goes on to the ASCII parser.
\<close>

definition parseSTL :: "Platform \<Rightarrow> nat list \<Rightarrow> exn + (real list \<times> nat)" where
  "parseSTL p buf =
     (case (case getUint32 buf 80 of
              Inl e \<Rightarrow> Inl e
            | Inr cnt \<Rightarrow>
                if cnt > 0 \<and> length buf = 84 + cnt * 50
                then map_sum id Some (parseBinarySTL p buf)
                else Inr None) of
        Inr (Some parsed) \<Rightarrow> Inr parsed
      | _ \<Rightarrow> parseASCIISTL p buf)"

subsection \<open>The object and its surroundings\<close>

text \<open>
  The fields of the object. The two blur buffers of \<open>_blurTmp\<close> are two fields. The
  callback \<open>_onGeometryChange\<close> is \<open>null\<close> or the function \<open>main.js\<close> installs, which hands
  the geometry to the renderer: the field says whether it is installed, and the calls are
  recorded, with the console output, in the surroundings of the object.
\<close>

record BBox =
  cx :: real
  cy :: real
  cz :: real
  maxSpan :: real

record ShapeConstraint =
  enabled :: bool
  fuzziness :: real
  scale :: real
  fuzzMask :: farray
  rawVerts :: "real list option"
  rawCenter :: "BBox option"
  rawAutoS :: real
  worldVerts :: "real list option"
  triCount :: nat
  binMask :: farray
  blurTmp0 :: farray
  blurTmp1 :: farray
  onGeometryChange :: bool

datatype console_line =
  ConsoleError string string
| ConsoleLog nat
| ConsoleTime string
| ConsoleTimeEnd string

record World =
  console :: "console_line list"
  geometry :: "(real list option \<times> nat) list"

definition new_ShapeConstraint :: ShapeConstraint where
  "new_ShapeConstraint =
     \<lparr>enabled = False, fuzziness = 1.0, scale = 1.0,
      fuzzMask = fill N3 1.0 (\<lambda>_. 0),
      rawVerts = None, rawCenter = None, rawAutoS = 1.0,
      worldVerts = None, triCount = 0,
      binMask = (\<lambda>_. 0), blurTmp0 = (\<lambda>_. 0), blurTmp1 = (\<lambda>_. 0),
      onGeometryChange = False\<rparr>"

subsection \<open>Transform\<close>

text \<open>
  The loop of \<open>_bboxCenter\<close>, three entries at a time. The arrays it is given hold whole
  triangles, so no entries are left over.
\<close>

fun bbox_loop ::
  "real list \<Rightarrow> real \<times> real \<times> real \<times> real \<times> real \<times> real \<Rightarrow> real \<times> real \<times> real \<times> real \<times> real \<times> real" where
  "bbox_loop (x # y # z # rest) (minX, maxX, minY, maxY, minZ, maxZ) =
     bbox_loop rest
       (if x < minX then x else minX, if x > maxX then x else maxX,
        if y < minY then y else minY, if y > maxY then y else maxY,
        if z < minZ then z else minZ, if z > maxZ then z else maxZ)"
| "bbox_loop _ b = b"

definition bboxCenter :: "real list \<Rightarrow> BBox" where
  "bboxCenter verts =
     (case bbox_loop verts (1000000000, - 1000000000, 1000000000, - 1000000000, 1000000000, - 1000000000) of
        (minX, maxX, minY, maxY, minZ, maxZ) \<Rightarrow>
          \<lparr>cx = (minX + maxX) / 2, cy = (minY + maxY) / 2, cz = (minZ + maxZ) / 2,
           maxSpan = max (maxX - minX) (max (maxY - minY) (maxZ - minZ))\<rparr>)"

definition autoScaleFactor :: "BBox \<Rightarrow> real" where
  "autoScaleFactor center =
     (let target = WORLD_RANGE * 2 * 0.70
      in if maxSpan center > 0 then target / maxSpan center else 1.0)"

text \<open>
  The loop of \<open>_applyTransform\<close>, three entries at a time; every entry of the world
  array is written, so the array is rebuilt whether or not it is allocated anew.
\<close>

fun transform_loop :: "BBox \<Rightarrow> real \<Rightarrow> real list \<Rightarrow> real list" where
  "transform_loop c s (x # y # z # rest) =
     (x - cx c) * s # (y - cy c) * s # (z - cz c) * s # transform_loop c s rest"
| "transform_loop c s _ = []"

definition applyTransform :: "ShapeConstraint \<Rightarrow> exn + ShapeConstraint" where
  "applyTransform sc =
     (case rawCenter sc of
        None \<Rightarrow> Inl NullError
      | Some c \<Rightarrow>
          (case rawVerts sc of
             None \<Rightarrow> Inl NullError
           | Some raw \<Rightarrow>
               (let s = rawAutoS sc * scale sc
                in Inr (sc\<lparr>worldVerts := Some (transform_loop c s raw)\<rparr>))))"

subsection \<open>Column scan\<close>

definition triRayY :: "real \<Rightarrow> real \<Rightarrow> real list \<Rightarrow> nat \<Rightarrow> real option" where
  "triRayY rx rz verts base =
     (let ax = verts ! base; ay = verts ! (base + 1); az = verts ! (base + 2);
          bx = verts ! (base + 3); by' = verts ! (base + 4); bz = verts ! (base + 5);
          cx' = verts ! (base + 6); cy' = verts ! (base + 7); cz' = verts ! (base + 8);
          denom = (bz - cz') * (ax - cx') + (cx' - bx) * (az - cz')
      in if \<bar>denom\<bar> < 1 / 10 ^ 10 then None
         else
           (let u = ((bz - cz') * (rx - cx') + (cx' - bx) * (rz - cz')) / denom;
                v = ((cz' - az) * (rx - cx') + (ax - cx') * (rz - cz')) / denom;
                w = 1 - u - v
            in if u < - (1 / 10 ^ 6) \<or> v < - (1 / 10 ^ 6) \<or> w < - (1 / 10 ^ 6) then None
               else Some (u * ay + v * by' + w * cy')))"

text \<open>
  The first loop of \<open>_columnScan\<close>, for one triangle: the triangle is appended to the
  list of every column its bounding box in the XZ plane touches.
\<close>

definition add_triangle :: "real list \<Rightarrow> nat \<Rightarrow> (nat \<Rightarrow> nat list) \<Rightarrow> (nat \<Rightarrow> nat list)" where
  "add_triangle verts t colTris =
     (let b = t * 9;
          x0 = verts ! b; x1 = verts ! (b + 3); x2 = verts ! (b + 6);
          z0 = verts ! (b + 2); z1 = verts ! (b + 5); z2 = verts ! (b + 8);
          xMin = min x0 (min x1 x2); xMax = max x0 (max x1 x2);
          zMin = min z0 (min z1 z2); zMax = max z0 (max z1 z2);
          gxLo = max 0 \<lfloor>(xMin + WORLD_RANGE) / CELL_SIZE\<rfloor>;
          gxHi = min (int N - 1) \<lceil>(xMax + WORLD_RANGE) / CELL_SIZE\<rceil>;
          gzLo = max 0 \<lfloor>(zMin + WORLD_RANGE) / CELL_SIZE\<rfloor>;
          gzHi = min (int N - 1) \<lceil>(zMax + WORLD_RANGE) / CELL_SIZE\<rceil>
      in fold (\<lambda>gx. fold (\<lambda>gz ct. ct(nat (gx + gz * int N) := ct (nat (gx + gz * int N)) @ [t]))
                 [gzLo..gzHi])
           [gxLo..gxHi] colTris)"

text \<open>The parity fill between one pair of crossings, and over the sorted crossings.\<close>

definition fill_window :: "nat \<Rightarrow> nat \<Rightarrow> real \<Rightarrow> real \<Rightarrow> farray \<Rightarrow> farray" where
  "fill_window gx gz yLo yHi cells =
     (let half = real N / 2 - 0.5;
          gyLo = max 0 \<lceil>yLo / CELL_SIZE + half\<rceil>;
          gyHi = min (int N - 1) \<lfloor>yHi / CELL_SIZE + half\<rfloor>
      in fold (\<lambda>gy m. m(nat (int gx + gy * int N + int gz * int N2) := 1.0)) [gyLo..gyHi] cells)"

fun parity_fill :: "nat \<Rightarrow> nat \<Rightarrow> real list \<Rightarrow> farray \<Rightarrow> farray" where
  "parity_fill gx gz (yLo # yHi # rest) cells =
     parity_fill gx gz rest (fill_window gx gz yLo yHi cells)"
| "parity_fill gx gz _ cells = cells"

text \<open>The body of the second loop, for the column \<open>(gx, gz)\<close>.\<close>

definition scan_column :: "real list \<Rightarrow> (nat \<Rightarrow> nat list) \<Rightarrow> nat \<Rightarrow> nat \<Rightarrow> farray \<Rightarrow> farray" where
  "scan_column verts colTris gx gz cells =
     (let col = colTris (gx + gz * N)
      in if col = [] then cells
         else
           (let rx = (real gx - real N / 2 + 0.5) * CELL_SIZE;
                rz = (real gz - real N / 2 + 0.5) * CELL_SIZE;
                yHits = List.map_filter (\<lambda>t. triRayY rx rz verts (t * 9)) col
            in if length yHits < 2 then cells
               else parity_fill gx gz (sort yHits) cells))"

text \<open>
  \<open>_columnScan\<close>. With no world vertices it throws at the first read, which needs a
  triangle to read (the binary mask has been cleared by then). \<open>loadSTL\<close> sets the
  vertices before it gets here. Reads of \<open>verts\<close> are inside the array when it holds
  \<open>triCount\<close> whole triangles, as it does after \<open>loadSTL\<close>.
\<close>

definition columnScan :: "ShapeConstraint \<Rightarrow> exn + ShapeConstraint" where
  "columnScan sc =
     (let nTri = triCount sc;
          cells0 = fill N3 0 (binMask sc)
      in case worldVerts sc of
           None \<Rightarrow> if nTri > 0 then Inl NullError else Inr (sc\<lparr>binMask := cells0\<rparr>)
         | Some verts \<Rightarrow>
             (let colTris = fold (add_triangle verts) [0..<nTri] (\<lambda>_. []);
                  cells = fold (\<lambda>gx. fold (\<lambda>gz. scan_column verts colTris gx gz) [0..<N])
                           [0..<N] cells0
              in Inr (sc\<lparr>binMask := cells\<rparr>)))"

subsection \<open>Blur\<close>

datatype axis = AxisX | AxisY | AxisZ

definition fi :: "nat \<Rightarrow> nat \<Rightarrow> nat \<Rightarrow> axis \<Rightarrow> nat" where
  "fi a b c ax =
     (case ax of
        AxisX \<Rightarrow> c + a * N + b * N2
      | AxisY \<Rightarrow> a + c * N + b * N2
      | AxisZ \<Rightarrow> a + b * N + c * N2)"

text \<open>\<open>TypedArray.set(src)\<close> between two arrays of length \<open>n\<close>.\<close>

definition array_set :: "nat \<Rightarrow> farray \<Rightarrow> farray \<Rightarrow> farray" where
  "array_set n src dst = (\<lambda>j. if j < n then src j else dst j)"

text \<open>
  One line of \<open>_boxPass\<close> (fixed \<open>a\<close> and \<open>b\<close>): the start of the window, then the slide.
  Source and destination are different arrays in every call.
\<close>

definition boxPass_line :: "farray \<Rightarrow> axis \<Rightarrow> nat \<Rightarrow> nat \<Rightarrow> farray \<Rightarrow> farray" where
  "boxPass_line src ax a b dst =
     (let s0 = src (fi a b 0 ax) * 2 + src (fi a b 1 ax);
          d0 = dst(fi a b 0 ax := s0 / 3)
      in snd (fold (\<lambda>c st. case st of (s, d) \<Rightarrow>
                      (let s1 = s + src (fi a b (min (c + 1) (N - 1)) ax);
                           s2 = s1 - src (fi a b (nat (max (int c - 2) 0)) ax)
                       in (s2, d(fi a b c ax := s2 / 3))))
                [1..<N] (s0, d0)))"

definition boxPass :: "farray \<Rightarrow> farray \<Rightarrow> axis \<Rightarrow> farray" where
  "boxPass src dst ax = fold (\<lambda>a. fold (\<lambda>b. boxPass_line src ax a b) [0..<N]) [0..<N] dst"

text \<open>One round of the blur on the two buffers \<open>(t0, t1)\<close>.\<close>

definition blur_round :: "farray \<times> farray \<Rightarrow> farray \<times> farray" where
  "blur_round st =
     (case st of (t0, t1) \<Rightarrow>
        (let t1a = boxPass t0 t1 AxisX;
             t0a = boxPass t1a t0 AxisY;
             t1b = boxPass t0a t1a AxisZ
         in (array_set N3 t1b t0a, t1b)))"

definition blurBinary :: "ShapeConstraint \<Rightarrow> ShapeConstraint" where
  "blurBinary sc =
     (let numPasses = max 0 \<lfloor>fuzziness sc / CELL_SIZE + 1 / 2\<rfloor>
      in if numPasses = 0 then sc\<lparr>fuzzMask := array_set N3 (binMask sc) (fuzzMask sc)\<rparr>
         else
           (case (blur_round ^^ nat numPasses) (array_set N3 (binMask sc) (blurTmp0 sc), blurTmp1 sc) of
              (t0, t1) \<Rightarrow>
                sc\<lparr>blurTmp0 := t0, blurTmp1 := t1, fuzzMask := array_set N3 t0 (fuzzMask sc)\<rparr>))"

definition rebuildFull :: "ShapeConstraint \<times> World \<Rightarrow> exn + (ShapeConstraint \<times> World)" where
  "rebuildFull st =
     (case st of (sc, w) \<Rightarrow>
        (case columnScan sc of
           Inl e \<Rightarrow> Inl e
         | Inr sc1 \<Rightarrow>
             (let sc2 = blurBinary sc1
              in Inr (sc2,
                      if onGeometryChange sc2
                      then w\<lparr>geometry := geometry w @ [(worldVerts sc2, triCount sc2)]\<rparr>
                      else w))))"

subsection \<open>loadSTL\<close>

text \<open>
  \<open>loadSTL\<close> returns nothing; the result is the object and its surroundings after the
  call, or the exception that leaves the call.
\<close>

definition loadSTL ::
  "Platform \<Rightarrow> nat list \<Rightarrow> ShapeConstraint \<times> World \<Rightarrow> exn + (ShapeConstraint \<times> World)" where
  "loadSTL p arrayBuffer st =
     (case st of (sc, w) \<Rightarrow>
        (case parseSTL p arrayBuffer of
           Inl err \<Rightarrow>
             Inr (sc, w\<lparr>console := console w @
                        [ConsoleError ''[ShapeConstraint] Parse error:'' (message err)]\<rparr>)
         | Inr (verts, cnt) \<Rightarrow>
             (let sc1 = sc\<lparr>triCount := cnt\<rparr>;
                  w1 = w\<lparr>console := console w @
                         [ConsoleLog cnt, ConsoleTime ''[ShapeConstraint] mask build'']\<rparr>;
                  sc2 = sc1\<lparr>rawVerts := Some verts\<rparr>;
                  sc3 = sc2\<lparr>rawCenter := Some (bboxCenter verts)\<rparr>;
                  sc4 = sc3\<lparr>rawAutoS := autoScaleFactor (bboxCenter verts)\<rparr>
              in case applyTransform sc4 of
                   Inl e \<Rightarrow> Inl e
                 | Inr sc5 \<Rightarrow>
                     (case rebuildFull (sc5, w1) of
                        Inl e \<Rightarrow> Inl e
                      | Inr (sc6, w2) \<Rightarrow>
                          Inr (sc6\<lparr>enabled := True\<rparr>,
                               w2\<lparr>console := console w2 @
                                    [ConsoleTimeEnd ''[ShapeConstraint] mask build'']\<rparr>)))))"

subsection \<open>The binary test, and example inputs\<close>

text \<open>
  The test of \<open>parseSTL\<close> as a predicate: the input is taken for a binary file when its
  count field can be read, is positive and accounts for the length exactly. The count is
  then at most the length, which bounds the search.
\<close>

definition binary_sized :: "nat list \<Rightarrow> bool" where
  "binary_sized buf = (\<exists>cnt \<in> {1..length buf}. getUint32 buf 80 = Inr cnt \<and> length buf = 84 + cnt * 50)"

text \<open>
  A host for the examples: its decoder is right on ASCII bytes, which is all the examples
  hold; no example reaches a float or a number conversion whose value matters.
\<close>

definition ascii_platform :: Platform where
  "ascii_platform =
     \<lparr>getFloat32 = (\<lambda>_. 0), decode = map (\<lambda>b. if b < 128 then b else 65533),
      toNumber = (\<lambda>_. 0)\<rparr>"

text \<open>
  A binary file cut off after its header (the count says one triangle, no triangle follows),
  and a text with a single vertex record, \<open>vertex 1 2 3\<close>.
\<close>

definition truncated_binary :: "nat list" where
  "truncated_binary = replicate 80 0 @ [1, 0, 0, 0]"

definition one_vertex_text :: "nat list" where
  "one_vertex_text = [118, 101, 114, 116, 101, 120, 32, 49, 32, 50, 32, 51]"

definition empty_world :: World where
  "empty_world = \<lparr>console = [], geometry = []\<rparr>"

section \<open>The clamp at the end of the field step\<close>

lemma clamp_loop_higgs:
  "higgs (fold update_clamp_cell [0..<n] f) j =
     (if j < n then max (-5) (min 5 (higgs f j)) else higgs f j)"
  by (induction n arbitrary: j) (auto simp: update_clamp_cell_def)

lemma clamp_loop_electron:
  "electron (fold update_clamp_cell [0..<n] f) j =
     (if j < n then max (-5) (min 5 (electron f j)) else electron f j)"
  by (induction n arbitrary: j) (auto simp: update_clamp_cell_def)

lemma clamp_loop_photon:
  "photon (fold update_clamp_cell [0..<n] f) j =
     (if j < n then max (-5) (min 5 (photon f j)) else photon f j)"
  by (induction n arbitrary: j) (auto simp: update_clamp_cell_def)



section \<open>The field step is a velocity-Verlet step\<close>

lemma js_rem_eq: "0 < n \<Longrightarrow> js_rem x n = (if 0 \<le> x then x mod n else - ((- x) mod n))"
  by (auto simp: js_rem_def sgn_if abs_if)

lemma js_wrap: "0 < n \<Longrightarrow> js_rem (js_rem x n + n) n = x mod n"
proof -
  assume n: "0 < n"
  have a: "0 \<le> x mod n" "x mod n < n" "0 \<le> (- x) mod n" "(- x) mod n < n"
    using n by simp_all
  show ?thesis
  proof (cases "0 \<le> x")
    case True
    then show ?thesis using n a by (simp add: js_rem_eq)
  next
    case False
    have "(n - (- x) mod n) mod n = (n mod n - (- x) mod n) mod n"
      by (simp only: mod_diff_left_eq)
    also have "\<dots> = (- ((- x) mod n)) mod n" by simp
    also have "\<dots> = (- (- x)) mod n" by (simp only: mod_minus_eq)
    finally have "(n - (- x) mod n) mod n = x mod n" by simp
    then show ?thesis using False n a by (simp add: js_rem_eq)
  qed
qed

lemma fold_product:
  "fold (\<lambda>(x, y). g x y) (List.product xs ys) = fold (\<lambda>x. fold (g x) ys) xs"
  by (induction xs) (simp_all add: fold_map comp_def)

lemma fold_pointwise_out:
  assumes wr: "\<And>c s. get (body c s) = (get s)(key c := val s c)"
  shows "j \<notin> key ` set cs \<Longrightarrow> get (fold body cs s) j = get s j"
  by (induction cs arbitrary: s) (auto simp: wr)

lemma fold_pointwise_in:
  assumes wr: "\<And>c s. get (body c s) = (get s)(key c := val s c)"
    and st: "\<And>c c' s. key c \<noteq> key c' \<Longrightarrow> val (body c s) c' = val s c'"
  shows "distinct (map key cs) \<Longrightarrow> c \<in> set cs \<Longrightarrow> get (fold body cs s) (key c) = val s c"
proof (induction cs arbitrary: s)
  case Nil
  then show ?case by simp
next
  case (Cons a cs)
  show ?case
  proof (cases "c \<in> set cs")
    case True
    with Cons.prems have ne: "key a \<noteq> key c" by auto
    from Cons.IH [of "body a s"] Cons.prems True
    have "get (fold body cs (body a s)) (key c) = val (body a s) c" by simp
    with st [OF ne] show ?thesis by simp
  next
    case False
    with Cons.prems have ca: "c = a" by simp
    from Cons.prems have "key a \<notin> key ` set cs" by simp
    from fold_pointwise_out [of get body key val, OF wr this]
    show ?thesis by (simp add: ca wr)
  qed
qed

lemma key_shape: "x + y * n + z * (n * n) = x + (y + z * n) * (n::nat)"
  by (simp add: algebra_simps)

lemma key_mod: "x < n \<Longrightarrow> (x + y * n + z * (n * n)) mod n = (x::nat)"
  unfolding key_shape by simp

lemma key_div: "x < n \<Longrightarrow> (x + y * n + z * (n * n)) div n = y + z * (n::nat)"
  unfolding key_shape by simp

lemma key_inj:
  assumes "x < n" "y < n" "x' < n" "y' < n"
    and e: "x + y * n + z * (n * n) = x' + y' * n + z' * (n * n::nat)"
  shows "x = x' \<and> y = y' \<and> z = z'"
proof -
  from assms have n: "0 < n" by simp
  have x: "x = x'"
    using arg_cong [OF e, of "\<lambda>k. k mod n"] assms(1,3) by (simp only: key_mod)
  have yz: "y + z * n = y' + z' * n"
    using arg_cong [OF e, of "\<lambda>k. k div n"] assms(1,3) by (simp only: key_div)
  have y: "y = y'"
    using arg_cong [OF yz, of "\<lambda>k. k mod n"] assms(2,4) by simp
  from yz y n have "z = z'" by simp
  with x y show ?thesis by simp
qed

lemma key_split: "(i::nat) mod n + i div n mod n * n + i div (n * n) * (n * n) = i"
proof -
  define q where "q = i div n"
  have d: "i div (n * n) = q div n" by (simp add: div_mult2_eq q_def)
  have "(q mod n + q div n * n) * n = q * n" by simp
  then have "q mod n * n + q div n * (n * n) = q * n"
    by (simp only: distrib_right mult.assoc)
  moreover have "i mod n + q * n = i" by (simp add: q_def)
  ultimately show ?thesis unfolding d q_def [symmetric] by simp
qed

lemma key_z: "i < n * n * n \<Longrightarrow> i div (n * n) < (n::nat)"
  by (simp add: less_mult_imp_div_less mult.commute)

lemma grid_loop_flat: "grid_loop body = fold (\<lambda>(x, y, z). body x y z) grid_cells"
  unfolding grid_loop_def grid_cells_def
  by (simp add: fold_product [symmetric] split_def)

lemma idx_wrap: "idx x y z = nat (x mod int N + (y mod int N) * int N + (z mod int N) * int N2)"
  by (simp add: idx_def js_wrap N_def)

lemma idx_cell: "x < N \<Longrightarrow> y < N \<Longrightarrow> z < N \<Longrightarrow> idx (int x) (int y) (int z) = cell_key (x, y, z)"
  by (simp add: idx_wrap cell_key_def nat_add_distrib nat_mult_distrib)

lemma distinct_keys: "distinct (map cell_key grid_cells)"
proof -
  have "inj_on cell_key (set grid_cells)"
  proof (rule inj_onI)
    fix c d
    assume c: "c \<in> set grid_cells" and d: "d \<in> set grid_cells"
      and e: "cell_key c = cell_key d"
    obtain x y z where c': "c = (x, y, z)" by (cases c) auto
    obtain x' y' z' where d': "d = (x', y', z')" by (cases d) auto
    from c d have b: "x < N" "y < N" "x' < N" "y' < N"
      by (simp_all add: c' d' grid_cells_def)
    from e have "x + y * N + z * (N * N) = x' + y' * N + z' * (N * N)"
      by (simp add: c' d' cell_key_def N2_def)
    from key_inj [OF b this] show "c = d" by (simp add: c' d')
  qed
  moreover have "distinct grid_cells"
    by (simp add: grid_cells_def distinct_product)
  ultimately show ?thesis by (simp add: distinct_map)
qed

lemma cell_of_index:
  assumes "i < N3"
  shows "(i mod N, (i div N) mod N, i div N2) \<in> set grid_cells"
    and "cell_key (i mod N, (i div N) mod N, i div N2) = i"
proof -
  have n: "0 < N" by (simp add: N_def)
  from assms have "i div N2 < N" unfolding N2_def N3_def by (rule key_z)
  with n show "(i mod N, (i div N) mod N, i div N2) \<in> set grid_cells"
    by (simp add: grid_cells_def)
  show "cell_key (i mod N, (i div N) mod N, i div N2) = i"
    by (simp add: cell_key_def N2_def key_split)
qed

lemma N_pos: "0 < N" by (simp add: N_def)

lemma int_pred_mod: "x < n \<Longrightarrow> (int x - 1) mod int n = int ((x + n - 1) mod n)"
proof -
  assume "x < n"
  then have "int x - 1 + int n = int (x + n - 1)" by simp
  then have "(int x - 1) mod int n = int (x + n - 1) mod int n"
    by (metis mod_add_self2)
  then show ?thesis by (simp add: zmod_int)
qed

lemma int_succ_mod: "(int x + 1) mod int n = int ((x + 1) mod n)"
  by (simp add: zmod_int add.commute)

lemma idx_nat: "idx (int x) (int y) (int z) = x mod N + (y mod N) * N + (z mod N) * N2"
  by (simp add: idx_wrap zmod_int [symmetric] nat_add_distrib nat_mult_distrib)

lemma laplacian_spec:
  assumes "x < N" "y < N" "z < N"
  shows "laplacian fld (int x) (int y) (int z) = spec_laplacian fld (cell_key (x, y, z))"
proof -
  have "cell_key (x, y, z) div N2 = (cell_key (x, y, z) div N) div N"
    by (simp add: N2_def div_mult2_eq)
  then have k: "cell_key (x, y, z) mod N = x" "cell_key (x, y, z) div N mod N = y"
    "cell_key (x, y, z) div N2 = z"
    using assms by (simp_all add: cell_key_def N2_def key_shape)
  have i: "\<And>a b c. idx a b c = nat (a mod int N) + nat (b mod int N) * N + nat (c mod int N) * N2"
    using N_pos by (simp add: idx_wrap nat_add_distrib nat_mult_distrib)
  show ?thesis
    unfolding laplacian_def spec_laplacian_def Let_def k i
    using assms
    by (simp add: int_pred_mod int_succ_mod zmod_int [symmetric] cell_key_def)
qed

lemma update_acc_cell_eq:
  "(case c of (x, y, z) \<Rightarrow> update_acc_cell x y z) f =
     f\<lparr>higgsAcc := (higgsAcc f)(ikey c := cell_acc_higgs (higgs f) (electron f) c),
       electronAcc := (electronAcc f)(ikey c := cell_acc_electron (higgs f) (electron f) c),
       photonAcc := (photonAcc f)(ikey c := cell_acc_photon (photon f) (photonVel f) (electronVel f) c)\<rparr>"
  by (cases c) (simp add: update_acc_cell_def Let_def ikey_def cell_acc_higgs_def
      cell_acc_electron_def cell_acc_photon_def)

lemma update_vel_cell_eq:
  "(case c of (x, y, z) \<Rightarrow> update_vel_cell dt x y z) f =
     f\<lparr>higgsVel := (higgsVel f)(ikey c := higgsVel f (ikey c)
          + (higgsAcc f (ikey c) + cell_acc_higgs (higgs f) (electron f) c) * (0.5 * dt)),
       electronVel := (electronVel f)(ikey c := electronVel f (ikey c)
          + (electronAcc f (ikey c) + cell_acc_electron (higgs f) (electron f) c) * (0.5 * dt)),
       photonVel := (photonVel f)(ikey c := photonVel f (ikey c)
          + (photonAcc f (ikey c) + cell_acc_photon (photon f) (photonVel f) (electronVel f) c) * (0.5 * dt))\<rparr>"
  by (cases c) (simp add: update_vel_cell_def Let_def ikey_def cell_acc_higgs_def
      cell_acc_electron_def cell_acc_photon_def)

lemma ikey_cell: "c \<in> set grid_cells \<Longrightarrow> ikey c = cell_key c"
  by (cases c) (simp add: ikey_def grid_cells_def idx_cell)

lemma distinct_ikeys: "distinct (map ikey grid_cells)"
proof -
  have e: "map ikey grid_cells = map cell_key grid_cells"
    by (rule map_cong) (simp_all add: ikey_cell)
  show ?thesis unfolding e by (rule distinct_keys)
qed

lemma cell_acc_higgs_spec:
  "c \<in> set grid_cells \<Longrightarrow> cell_acc_higgs hg el c = spec_acc_higgs hg el (cell_key c)"
  by (cases c) (simp add: cell_acc_higgs_def spec_acc_higgs_def ikey_cell
      laplacian_spec grid_cells_def power2_eq_square)

lemma cell_acc_electron_spec:
  "c \<in> set grid_cells \<Longrightarrow> cell_acc_electron hg el c = spec_acc_electron hg el (cell_key c)"
  by (cases c) (simp add: cell_acc_electron_def spec_acc_electron_def ikey_cell
      laplacian_spec grid_cells_def)

lemma cell_acc_photon_spec:
  "c \<in> set grid_cells \<Longrightarrow> cell_acc_photon ph pv ev c = spec_acc_photon ph pv ev (cell_key c)"
  by (cases c) (simp add: cell_acc_photon_def spec_acc_photon_def ikey_cell
      laplacian_spec grid_cells_def)

lemma acc_loop_frame:
  "higgs (fold (\<lambda>(x, y, z). update_acc_cell x y z) cs s) = higgs s \<and>
   electron (fold (\<lambda>(x, y, z). update_acc_cell x y z) cs s) = electron s \<and>
   photon (fold (\<lambda>(x, y, z). update_acc_cell x y z) cs s) = photon s \<and>
   higgsVel (fold (\<lambda>(x, y, z). update_acc_cell x y z) cs s) = higgsVel s \<and>
   electronVel (fold (\<lambda>(x, y, z). update_acc_cell x y z) cs s) = electronVel s \<and>
   photonVel (fold (\<lambda>(x, y, z). update_acc_cell x y z) cs s) = photonVel s \<and>
   heartStrength (fold (\<lambda>(x, y, z). update_acc_cell x y z) cs s) = heartStrength s \<and>
   heartSurface (fold (\<lambda>(x, y, z). update_acc_cell x y z) cs s) = heartSurface s \<and>
   heartSurfaceCells (fold (\<lambda>(x, y, z). update_acc_cell x y z) cs s) = heartSurfaceCells s \<and>
   heartInteriorCells (fold (\<lambda>(x, y, z). update_acc_cell x y z) cs s) = heartInteriorCells s"
  by (induction cs arbitrary: s) (simp_all add: update_acc_cell_eq)

lemma vel_loop_frame:
  "higgs (fold (\<lambda>(x, y, z). update_vel_cell dt x y z) cs s) = higgs s \<and>
   electron (fold (\<lambda>(x, y, z). update_vel_cell dt x y z) cs s) = electron s \<and>
   photon (fold (\<lambda>(x, y, z). update_vel_cell dt x y z) cs s) = photon s \<and>
   higgsAcc (fold (\<lambda>(x, y, z). update_vel_cell dt x y z) cs s) = higgsAcc s \<and>
   electronAcc (fold (\<lambda>(x, y, z). update_vel_cell dt x y z) cs s) = electronAcc s \<and>
   photonAcc (fold (\<lambda>(x, y, z). update_vel_cell dt x y z) cs s) = photonAcc s \<and>
   heartStrength (fold (\<lambda>(x, y, z). update_vel_cell dt x y z) cs s) = heartStrength s \<and>
   heartSurface (fold (\<lambda>(x, y, z). update_vel_cell dt x y z) cs s) = heartSurface s \<and>
   heartSurfaceCells (fold (\<lambda>(x, y, z). update_vel_cell dt x y z) cs s) = heartSurfaceCells s \<and>
   heartInteriorCells (fold (\<lambda>(x, y, z). update_vel_cell dt x y z) cs s) = heartInteriorCells s"
  by (induction cs arbitrary: s) (simp_all add: update_vel_cell_eq)

lemma pos_loop:
  "fold (update_pos_cell dt) [0..<n] s =
     s\<lparr>higgs := (\<lambda>j. if j < n then higgs s j + (higgsVel s j * dt + higgsAcc s j * (0.5 * dt * dt)) else higgs s j),
       electron := (\<lambda>j. if j < n then electron s j + (electronVel s j * dt + electronAcc s j * (0.5 * dt * dt)) else electron s j),
       photon := (\<lambda>j. if j < n then photon s j + (photonVel s j * dt + photonAcc s j * (0.5 * dt * dt)) else photon s j)\<rparr>"
  by (induction n) (auto simp: update_pos_cell_def Let_def fun_eq_iff)

lemma acc_loop_higgs:
  assumes "i < N3"
  shows "higgsAcc (grid_loop update_acc_cell s) i = spec_acc_higgs (higgs s) (electron s) i"
proof -
  define c where "c = (i mod N, i div N mod N, i div N2)"
  have c: "c \<in> set grid_cells" "cell_key c = i"
    using cell_of_index [OF assms] by (simp_all add: c_def)
  have "higgsAcc (fold (\<lambda>(x, y, z). update_acc_cell x y z) grid_cells s) (ikey c)
      = cell_acc_higgs (higgs s) (electron s) c"
    by (rule fold_pointwise_in [where get = higgsAcc and key = ikey
          and val = "\<lambda>s c. cell_acc_higgs (higgs s) (electron s) c", OF _ _ distinct_ikeys c(1)])
      (simp_all add: update_acc_cell_eq)
  then show ?thesis
    by (simp add: grid_loop_flat ikey_cell c cell_acc_higgs_spec)
qed

lemma acc_loop_electron:
  assumes "i < N3"
  shows "electronAcc (grid_loop update_acc_cell s) i = spec_acc_electron (higgs s) (electron s) i"
proof -
  define c where "c = (i mod N, i div N mod N, i div N2)"
  have c: "c \<in> set grid_cells" "cell_key c = i"
    using cell_of_index [OF assms] by (simp_all add: c_def)
  have "electronAcc (fold (\<lambda>(x, y, z). update_acc_cell x y z) grid_cells s) (ikey c)
      = cell_acc_electron (higgs s) (electron s) c"
    by (rule fold_pointwise_in [where get = electronAcc and key = ikey
          and val = "\<lambda>s c. cell_acc_electron (higgs s) (electron s) c", OF _ _ distinct_ikeys c(1)])
      (simp_all add: update_acc_cell_eq)
  then show ?thesis
    by (simp add: grid_loop_flat ikey_cell c cell_acc_electron_spec)
qed

lemma acc_loop_photon:
  assumes "i < N3"
  shows "photonAcc (grid_loop update_acc_cell s) i = spec_acc_photon (photon s) (photonVel s) (electronVel s) i"
proof -
  define c where "c = (i mod N, i div N mod N, i div N2)"
  have c: "c \<in> set grid_cells" "cell_key c = i"
    using cell_of_index [OF assms] by (simp_all add: c_def)
  have "photonAcc (fold (\<lambda>(x, y, z). update_acc_cell x y z) grid_cells s) (ikey c)
      = cell_acc_photon (photon s) (photonVel s) (electronVel s) c"
    by (rule fold_pointwise_in [where get = photonAcc and key = ikey
          and val = "\<lambda>s c. cell_acc_photon (photon s) (photonVel s) (electronVel s) c", OF _ _ distinct_ikeys c(1)])
      (simp_all add: update_acc_cell_eq)
  then show ?thesis
    by (simp add: grid_loop_flat ikey_cell c cell_acc_photon_spec)
qed

lemma vel_loop_higgs:
  assumes "i < N3"
  shows "higgsVel (grid_loop (update_vel_cell dt) s) i =
           higgsVel s i + (higgsAcc s i + spec_acc_higgs (higgs s) (electron s) i) * (0.5 * dt)"
proof -
  define c where "c = (i mod N, i div N mod N, i div N2)"
  have c: "c \<in> set grid_cells" "cell_key c = i"
    using cell_of_index [OF assms] by (simp_all add: c_def)
  have "higgsVel (fold (\<lambda>(x, y, z). update_vel_cell dt x y z) grid_cells s) (ikey c)
      = higgsVel s (ikey c) + (higgsAcc s (ikey c) + cell_acc_higgs (higgs s) (electron s) c) * (0.5 * dt)"
    by (rule fold_pointwise_in [where get = higgsVel and key = ikey
          and val = "\<lambda>s c. higgsVel s (ikey c) + (higgsAcc s (ikey c) + cell_acc_higgs (higgs s) (electron s) c) * (0.5 * dt)", OF _ _ distinct_ikeys c(1)])
      (simp_all add: update_vel_cell_eq)
  then show ?thesis
    by (simp add: grid_loop_flat ikey_cell c cell_acc_higgs_spec)
qed

lemma vel_loop_electron:
  assumes "i < N3"
  shows "electronVel (grid_loop (update_vel_cell dt) s) i =
           electronVel s i + (electronAcc s i + spec_acc_electron (higgs s) (electron s) i) * (0.5 * dt)"
proof -
  define c where "c = (i mod N, i div N mod N, i div N2)"
  have c: "c \<in> set grid_cells" "cell_key c = i"
    using cell_of_index [OF assms] by (simp_all add: c_def)
  have "electronVel (fold (\<lambda>(x, y, z). update_vel_cell dt x y z) grid_cells s) (ikey c)
      = electronVel s (ikey c) + (electronAcc s (ikey c) + cell_acc_electron (higgs s) (electron s) c) * (0.5 * dt)"
    by (rule fold_pointwise_in [where get = electronVel and key = ikey
          and val = "\<lambda>s c. electronVel s (ikey c) + (electronAcc s (ikey c) + cell_acc_electron (higgs s) (electron s) c) * (0.5 * dt)", OF _ _ distinct_ikeys c(1)])
      (simp_all add: update_vel_cell_eq)
  then show ?thesis
    by (simp add: grid_loop_flat ikey_cell c cell_acc_electron_spec)
qed

lemma cell_acc_photon_other:
  "k \<noteq> ikey c \<Longrightarrow> cell_acc_photon ph (pv(k := v)) (ev(k := w)) c = cell_acc_photon ph pv ev c"
  by (cases c) (simp add: cell_acc_photon_def)

lemma vel_loop_photon:
  assumes "i < N3"
  shows "photonVel (grid_loop (update_vel_cell dt) s) i =
           photonVel s i + (photonAcc s i + spec_acc_photon (photon s) (photonVel s) (electronVel s) i) * (0.5 * dt)"
proof -
  define c where "c = (i mod N, i div N mod N, i div N2)"
  have c: "c \<in> set grid_cells" "cell_key c = i"
    using cell_of_index [OF assms] by (simp_all add: c_def)
  have "photonVel (fold (\<lambda>(x, y, z). update_vel_cell dt x y z) grid_cells s) (ikey c)
      = photonVel s (ikey c) + (photonAcc s (ikey c) + cell_acc_photon (photon s) (photonVel s) (electronVel s) c) * (0.5 * dt)"
    by (rule fold_pointwise_in [where get = photonVel and key = ikey
          and val = "\<lambda>s c. photonVel s (ikey c) + (photonAcc s (ikey c) + cell_acc_photon (photon s) (photonVel s) (electronVel s) c) * (0.5 * dt)", OF _ _ distinct_ikeys c(1)])
      (simp_all add: update_vel_cell_eq cell_acc_photon_other)
  then show ?thesis
    by (simp add: grid_loop_flat ikey_cell c cell_acc_photon_spec)
qed

lemma heart_surface_frame:
  "higgs (fst (heart_surface_loop hs dt cs f r)) = higgs f \<and>
   electron (fst (heart_surface_loop hs dt cs f r)) = electron f \<and>
   photon (fst (heart_surface_loop hs dt cs f r)) = photon f \<and>
   higgsVel (fst (heart_surface_loop hs dt cs f r)) = higgsVel f \<and>
   heartInteriorCells (fst (heart_surface_loop hs dt cs f r)) = heartInteriorCells f"
  by (induction hs dt cs f r rule: heart_surface_loop.induct) (simp_all add: Let_def)

lemma heart_interior_frame:
  "higgs (fst (heart_interior_loop ip dt cs f r)) = higgs f \<and>
   electron (fst (heart_interior_loop ip dt cs f r)) = electron f \<and>
   photon (fst (heart_interior_loop ip dt cs f r)) = photon f \<and>
   higgsVel (fst (heart_interior_loop ip dt cs f r)) = higgsVel f"
  by (induction ip dt cs f r rule: heart_interior_loop.induct) simp_all

lemma heart_attractor_frame:
  "higgs (fst (heart_attractor dt f r)) = higgs f \<and>
   electron (fst (heart_attractor dt f r)) = electron f \<and>
   photon (fst (heart_attractor dt f r)) = photon f \<and>
   higgsVel (fst (heart_attractor dt f r)) = higgsVel f"
  by (simp add: heart_attractor_def Let_def split_beta heart_surface_frame heart_interior_frame)

lemma heart_attractor_off: "heartStrength f \<le> 0 \<Longrightarrow> heart_attractor dt f r = (f, r)"
  by (simp add: heart_attractor_def)

lemma key_bound: "x < N \<Longrightarrow> y < N \<Longrightarrow> z < N \<Longrightarrow> x + y * N + z * N2 < N3"
  by (simp add: N_def N2_def N3_def)

lemma spec_laplacian_cong:
  assumes "\<And>j. j < N3 \<Longrightarrow> a j = b j" and "i < N3"
  shows "spec_laplacian a i = spec_laplacian b i"
proof -
  have z: "i div N2 < N" using assms(2) unfolding N2_def N3_def by (rule key_z)
  have m: "\<And>k. k mod N < N" using N_pos by simp
  show ?thesis
    unfolding spec_laplacian_def Let_def
    by (simp add: assms key_bound z m)
qed

lemma spec_acc_higgs_cong:
  assumes "\<And>j. j < N3 \<Longrightarrow> a j = a' j" "\<And>j. j < N3 \<Longrightarrow> b j = b' j" "i < N3"
  shows "spec_acc_higgs a b i = spec_acc_higgs a' b' i"
  unfolding spec_acc_higgs_def
  using spec_laplacian_cong [of a a' i] assms by simp

lemma spec_acc_electron_cong:
  assumes "\<And>j. j < N3 \<Longrightarrow> a j = a' j" "\<And>j. j < N3 \<Longrightarrow> b j = b' j" "i < N3"
  shows "spec_acc_electron a b i = spec_acc_electron a' b' i"
  unfolding spec_acc_electron_def
  using spec_laplacian_cong [of b b' i] assms by simp

lemma spec_acc_photon_cong:
  assumes "\<And>j. j < N3 \<Longrightarrow> a j = a' j" "i < N3"
  shows "spec_acc_photon a pv ev i = spec_acc_photon a' pv ev i"
  unfolding spec_acc_photon_def
  using spec_laplacian_cong [of a a' i] assms by simp

lemma verlet_phases:
  fixes f :: QuantumField and dt :: real
  defines "f1 \<equiv> grid_loop update_acc_cell f"
  defines "f2 \<equiv> fold (update_pos_cell dt) [0..<N3] f1"
  defines "f3 \<equiv> grid_loop (update_vel_cell dt) f2"
  assumes i: "i < N3"
  shows "higgs f3 i = spec_new_higgs dt f i"
    and "electron f3 i = spec_new_electron dt f i"
    and "photon f3 i = spec_new_photon dt f i"
    and "higgsVel f3 i = spec_new_higgsVel dt f i"
    and "electronVel f3 i = spec_new_electronVel dt f i"
    and "photonVel f3 i = spec_new_photonVel dt f i"
    and "heartStrength f3 = heartStrength f"
proof -
  note fr1 = acc_loop_frame [of grid_cells f, folded grid_loop_flat]
  have p2: "\<And>j. j < N3 \<Longrightarrow> higgs f2 j = spec_new_higgs dt f j"
    "\<And>j. j < N3 \<Longrightarrow> electron f2 j = spec_new_electron dt f j"
    "\<And>j. j < N3 \<Longrightarrow> photon f2 j = spec_new_photon dt f j"
    unfolding f2_def pos_loop
    by (simp_all add: fr1 f1_def acc_loop_higgs acc_loop_electron acc_loop_photon
        spec_new_higgs_def spec_new_electron_def spec_new_photon_def spec_advance_pos_def
        power2_eq_square)
  have v2: "higgsVel f2 = higgsVel f" "electronVel f2 = electronVel f" "photonVel f2 = photonVel f"
    "higgsAcc f2 = higgsAcc f1" "electronAcc f2 = electronAcc f1" "photonAcc f2 = photonAcc f1"
    "heartStrength f2 = heartStrength f"
    unfolding f2_def pos_loop by (simp_all add: fr1 f1_def)
  note fr3 = vel_loop_frame [of dt grid_cells f2, folded grid_loop_flat, folded f3_def]
  show "higgs f3 i = spec_new_higgs dt f i" "electron f3 i = spec_new_electron dt f i"
    "photon f3 i = spec_new_photon dt f i" "heartStrength f3 = heartStrength f"
    using i by (simp_all add: fr3 p2 v2)
  have a1: "higgsAcc f1 i = spec_acc_higgs (higgs f) (electron f) i"
    "electronAcc f1 i = spec_acc_electron (higgs f) (electron f) i"
    "photonAcc f1 i = spec_acc_photon (photon f) (photonVel f) (electronVel f) i"
    using i by (simp_all add: f1_def acc_loop_higgs acc_loop_electron acc_loop_photon)
  have n: "spec_acc_higgs (higgs f2) (electron f2) i
        = spec_acc_higgs (spec_new_higgs dt f) (spec_new_electron dt f) i"
    "spec_acc_electron (higgs f2) (electron f2) i
        = spec_acc_electron (spec_new_higgs dt f) (spec_new_electron dt f) i"
    "spec_acc_photon (photon f2) (photonVel f) (electronVel f) i
        = spec_acc_photon (spec_new_photon dt f) (photonVel f) (electronVel f) i"
    using i p2
    by (auto intro: spec_acc_higgs_cong spec_acc_electron_cong spec_acc_photon_cong)
  show "higgsVel f3 i = spec_new_higgsVel dt f i"
    unfolding f3_def vel_loop_higgs [OF i] n v2 a1
    by (simp add: spec_new_higgsVel_def spec_advance_vel_def)
  show "electronVel f3 i = spec_new_electronVel dt f i"
    unfolding f3_def vel_loop_electron [OF i] n v2 a1
    by (simp add: spec_new_electronVel_def spec_advance_vel_def)
  show "photonVel f3 i = spec_new_photonVel dt f i"
    unfolding f3_def vel_loop_photon [OF i] v2 n a1
    by (simp add: spec_new_photonVel_def spec_advance_vel_def)
qed

lemma verlet_amplitude_higgs:
  assumes i: "i < N3"
  shows "higgs (fst (QuantumField_update dt f r)) i = max (- 5) (min 5 (spec_new_higgs dt f i))"
proof -
  define f3 where "f3 = grid_loop (update_vel_cell dt)
      (fold (update_pos_cell dt) [0..<N3] (grid_loop update_acc_cell f))"
  note ph = verlet_phases [OF i, of dt f, folded f3_def]
  have u: "fst (QuantumField_update dt f r) = fold update_clamp_cell [0..<N3] (fst (heart_attractor dt f3 r))"
    by (simp add: QuantumField_update_def Let_def split_beta f3_def)
  show ?thesis unfolding u using i ph heart_attractor_frame [of dt f3 r]
    by (simp add: clamp_loop_higgs)
qed

text \<open>
  C4. \<open>QuantumField.update(dt)\<close> is the velocity-Verlet step of the specification: in every
  cell the amplitudes are advanced by \<open>x += v\<cdot>dt + \<onehalf>a\<cdot>dt\<^sup>2\<close> with the accelerations
  of the state at the start of the step (and then clamped), and the velocities by
  \<open>v += \<onehalf>(a_old + a_new)\<cdot>dt\<close> with the accelerations recomputed at the new amplitudes.
  The heart attractor, when its strength is positive, adds its pulls to the electron and
  photon velocities afterwards; it never touches the higgs velocity or the amplitudes.
\<close>

theorem update_is_velocity_verlet:
  "i < N3 \<Longrightarrow>
     higgs (fst (QuantumField_update dt f r)) i = max (- 5) (min 5 (spec_new_higgs dt f i)) \<and>
     electron (fst (QuantumField_update dt f r)) i = max (- 5) (min 5 (spec_new_electron dt f i)) \<and>
     photon (fst (QuantumField_update dt f r)) i = max (- 5) (min 5 (spec_new_photon dt f i)) \<and>
     higgsVel (fst (QuantumField_update dt f r)) i = spec_new_higgsVel dt f i \<and>
     (heartStrength f \<le> 0 \<longrightarrow>
        electronVel (fst (QuantumField_update dt f r)) i = spec_new_electronVel dt f i \<and>
        photonVel (fst (QuantumField_update dt f r)) i = spec_new_photonVel dt f i)"
proof -
  assume i: "i < N3"
  define f3 where "f3 = grid_loop (update_vel_cell dt)
      (fold (update_pos_cell dt) [0..<N3] (grid_loop update_acc_cell f))"
  note ph = verlet_phases [OF i, of dt f, folded f3_def]
  note hf = heart_attractor_frame [of dt f3 r]
  have u: "fst (QuantumField_update dt f r) = fold update_clamp_cell [0..<N3] (fst (heart_attractor dt f3 r))"
    by (simp add: QuantumField_update_def Let_def split_beta f3_def)
  have vel: "\<And>g. higgsVel (fold update_clamp_cell [0..<N3] g) = higgsVel g \<and>
       electronVel (fold update_clamp_cell [0..<N3] g) = electronVel g \<and>
       photonVel (fold update_clamp_cell [0..<N3] g) = photonVel g"
  proof -
    fix g
    have "\<And>n. higgsVel (fold update_clamp_cell [0..<n] g) = higgsVel g \<and>
       electronVel (fold update_clamp_cell [0..<n] g) = electronVel g \<and>
       photonVel (fold update_clamp_cell [0..<n] g) = photonVel g"
    proof -
      fix n show "higgsVel (fold update_clamp_cell [0..<n] g) = higgsVel g \<and>
       electronVel (fold update_clamp_cell [0..<n] g) = electronVel g \<and>
       photonVel (fold update_clamp_cell [0..<n] g) = photonVel g"
        by (induction n) (simp_all add: update_clamp_cell_def)
    qed
    then show "higgsVel (fold update_clamp_cell [0..<N3] g) = higgsVel g \<and>
       electronVel (fold update_clamp_cell [0..<N3] g) = electronVel g \<and>
       photonVel (fold update_clamp_cell [0..<N3] g) = photonVel g" .
  qed
  show ?thesis
    unfolding u
    using i ph hf
    by (simp add: clamp_loop_higgs clamp_loop_electron clamp_loop_photon vel heart_attractor_off)
qed

theorem update_is_velocity_verlet_witness:
  "(0::nat) < N3 \<and> heartStrength vacuum_field \<le> 0 \<and>
     higgs (fst (QuantumField_update 1 vacuum_field (sconst 0))) 0
       = max (- 5) (min 5 (spec_new_higgs 1 vacuum_field 0)) \<and>
     electron (fst (QuantumField_update 1 vacuum_field (sconst 0))) 0
       = max (- 5) (min 5 (spec_new_electron 1 vacuum_field 0)) \<and>
     photon (fst (QuantumField_update 1 vacuum_field (sconst 0))) 0
       = max (- 5) (min 5 (spec_new_photon 1 vacuum_field 0)) \<and>
     higgsVel (fst (QuantumField_update 1 vacuum_field (sconst 0))) 0
       = spec_new_higgsVel 1 vacuum_field 0 \<and>
     electronVel (fst (QuantumField_update 1 vacuum_field (sconst 0))) 0
       = spec_new_electronVel 1 vacuum_field 0 \<and>
     photonVel (fst (QuantumField_update 1 vacuum_field (sconst 0))) 0
       = spec_new_photonVel 1 vacuum_field 0"
proof -
  have h: "(0::nat) < N3" by (simp add: N3_def N_def)
  have s: "heartStrength vacuum_field \<le> 0" by (simp add: vacuum_field_def)
  show ?thesis
    using h s update_is_velocity_verlet [OF h, of 1 vacuum_field "sconst 0"] by simp
qed

text \<open>
  The step is not an explicit Euler step. On the field at rest with zero higgs amplitude and
  \<open>dt = 1\<close>, Euler's \<open>x += v\<cdot>dt\<close> would leave the higgs amplitude of cell 0 at
  \<open>0\<close>; the code moves it by \<open>\<onehalf>a\<cdot>dt\<^sup>2 = -64/625\<close>.
\<close>

lemma update_differs_from_euler:
  "higgs still_field 0 + higgsVel still_field 0 * 1 = 0 \<and>
   higgs (fst (QuantumField_update 1 still_field r)) 0 = - (64 / 625)"
proof -
  have h: "(0::nat) < N3" by (simp add: N3_def N_def)
  have "spec_new_higgs 1 still_field 0 = - (64 / 625)"
    by (simp add: spec_new_higgs_def spec_advance_pos_def spec_acc_higgs_def
        spec_laplacian_def still_field_def vacuum_field_def VEV_def Let_def power2_eq_square)
  with verlet_amplitude_higgs [OF h, of 1 still_field r] show ?thesis
    by (simp add: still_field_def vacuum_field_def)
qed

section \<open>The Orch-OR accumulator\<close>

lemma orch_cell_frame:
  "higgs (updateOrchOR_cell cs rate i f) = higgs f \<and>
   electron (updateOrchOR_cell cs rate i f) = electron f \<and>
   photon (updateOrchOR_cell cs rate i f) = photon f \<and>
   electronVel (updateOrchOR_cell cs rate i f) = electronVel f \<and>
   photonVel (updateOrchOR_cell cs rate i f) = photonVel f"
  by (simp add: updateOrchOR_cell_def Let_def)

lemma orch_loop_frame:
  "higgs (fold (updateOrchOR_cell cs rate) [0..<n] f) = higgs f \<and>
   electron (fold (updateOrchOR_cell cs rate) [0..<n] f) = electron f \<and>
   photon (fold (updateOrchOR_cell cs rate) [0..<n] f) = photon f \<and>
   electronVel (fold (updateOrchOR_cell cs rate) [0..<n] f) = electronVel f \<and>
   photonVel (fold (updateOrchOR_cell cs rate) [0..<n] f) = photonVel f"
  by (induction n) (simp_all add: orch_cell_frame)

lemma orch_delta_eq:
  "((e * e + ev * ev) * 0.6 + (p * p + pv * pv) * 0.4 - d * 0.5) * (g * dt)
     = g * dt * (0.6 * (e\<^sup>2 + ev\<^sup>2) + 0.4 * (p\<^sup>2 + pv\<^sup>2) - 0.5 * (d::real))"
  by (simp add: power2_eq_square algebra_simps)

lemma orch_cell_eq:
  "updateOrchOR_cell cs (orchGrowthRate cs * dt) i f =
     f\<lparr>orchCoherence := (orchCoherence f)
          (i := if orchThreshold cs \<le> spec_orch_grown cs dt f i then 0 else spec_orch_grown cs dt f i),
       orchFlash := (orchFlash f)
          (i := if orchThreshold cs \<le> spec_orch_grown cs dt f i then 1 else orchFlash f i)\<rparr>"
  unfolding updateOrchOR_cell_def Let_def orch_delta_eq spec_orch_grown_def spec_orch_delta_def
  by simp

lemma orch_cell_sel:
  "orchCoherence (updateOrchOR_cell cs (orchGrowthRate cs * dt) i f) j =
     (if j = i then (if orchThreshold cs \<le> spec_orch_grown cs dt f i then 0 else spec_orch_grown cs dt f i)
      else orchCoherence f j)"
  "orchFlash (updateOrchOR_cell cs (orchGrowthRate cs * dt) i f) j =
     (if j = i then (if orchThreshold cs \<le> spec_orch_grown cs dt f i then 1 else orchFlash f i)
      else orchFlash f j)"
  by (simp_all add: orch_cell_eq)

lemma spec_orch_grown_cong:
  "higgs g = higgs f \<Longrightarrow> electron g = electron f \<Longrightarrow> photon g = photon f \<Longrightarrow>
   electronVel g = electronVel f \<Longrightarrow> photonVel g = photonVel f \<Longrightarrow>
   orchCoherence g i = orchCoherence f i \<Longrightarrow>
   spec_orch_grown cs dt g i = spec_orch_grown cs dt f i"
  by (simp add: spec_orch_grown_def spec_orch_delta_def)

lemma orch_loop:
  "orchCoherence (fold (updateOrchOR_cell cs (orchGrowthRate cs * dt)) [0..<n] f) j =
     (if j < n then
        (if orchThreshold cs \<le> spec_orch_grown cs dt f j then 0 else spec_orch_grown cs dt f j)
      else orchCoherence f j) \<and>
   orchFlash (fold (updateOrchOR_cell cs (orchGrowthRate cs * dt)) [0..<n] f) j =
     (if j < n then
        (if orchThreshold cs \<le> spec_orch_grown cs dt f j then 1 else orchFlash f j)
      else orchFlash f j)"
proof (induction n arbitrary: j)
  case 0
  then show ?case by simp
next
  case (Suc n)
  let ?g = "fold (updateOrchOR_cell cs (orchGrowthRate cs * dt)) [0..<n] f"
  have fr: "higgs ?g = higgs f" "electron ?g = electron f" "photon ?g = photon f"
    "electronVel ?g = electronVel f" "photonVel ?g = photonVel f"
    using orch_loop_frame [of cs "orchGrowthRate cs * dt" n f] by simp_all
  have gn: "orchCoherence ?g n = orchCoherence f n" "orchFlash ?g n = orchFlash f n"
    using Suc [of n] by simp_all
  have sg: "spec_orch_grown cs dt ?g n = spec_orch_grown cs dt f n"
    by (rule spec_orch_grown_cong) (simp_all add: fr gn)
  show ?case
  proof (cases "j = n")
    case True
    then show ?thesis by (simp add: orch_cell_sel sg gn)
  next
    case False
    then show ?thesis using Suc [of j] by (simp add: orch_cell_sel)
  qed
qed


lemma orch_frame:
  "higgs (updateOrchOR cs dt f) = higgs f \<and>
   electron (updateOrchOR cs dt f) = electron f \<and>
   photon (updateOrchOR cs dt f) = photon f \<and>
   electronVel (updateOrchOR cs dt f) = electronVel f \<and>
   photonVel (updateOrchOR cs dt f) = photonVel f"
  by (simp add: updateOrchOR_def Let_def orch_loop_frame)

lemma orch_coherence:
  "i < N3 \<Longrightarrow> orchCoherence (updateOrchOR cs dt f) i =
     (if orchThreshold cs \<le> spec_orch_grown cs dt f i then 0 else spec_orch_grown cs dt f i)"
  by (simp add: updateOrchOR_def Let_def orch_loop spec_orch_grown_def spec_orch_delta_def)

lemma orch_flash:
  "i < N3 \<Longrightarrow> orchFlash (updateOrchOR cs dt f) i =
     (if orchThreshold cs \<le> spec_orch_grown cs dt f i then 1 else 0)"
  by (simp add: updateOrchOR_def Let_def orch_loop spec_orch_grown_def spec_orch_delta_def
      fill_def)




section \<open>The time accumulator of the driver\<close>

lemma animate_step_sel:
  "accumDt (animate_step sim scaledDT d) = accumDt d - SIM_DT"
  "frameCount (animate_step sim scaledDT d) = frameCount d + 1"
  "lastTime (animate_step sim scaledDT d) = lastTime d"
  "simRunning (animate_step sim scaledDT d) = simRunning d"
  by (simp_all add: animate_step_def Let_def split_beta)

lemma animate_loop_steps:
  "steps \<le> MAX_STEPS \<Longrightarrow>
     steps \<le> fst (animate_loop sim scaledDT steps d) \<and>
     fst (animate_loop sim scaledDT steps d) \<le> MAX_STEPS \<and>
     accumDt (snd (animate_loop sim scaledDT steps d))
       = accumDt d - real (fst (animate_loop sim scaledDT steps d) - steps) * SIM_DT \<and>
     frameCount (snd (animate_loop sim scaledDT steps d))
       = frameCount d + (fst (animate_loop sim scaledDT steps d) - steps) \<and>
     lastTime (snd (animate_loop sim scaledDT steps d)) = lastTime d \<and>
     simRunning (snd (animate_loop sim scaledDT steps d)) = simRunning d \<and>
     (fst (animate_loop sim scaledDT steps d) < MAX_STEPS
        \<longrightarrow> accumDt (snd (animate_loop sim scaledDT steps d)) < SIM_DT)"
proof (induction sim scaledDT steps d rule: animate_loop.induct)
  case (1 sim scaledDT steps d)
  show ?case
  proof (cases "accumDt d \<ge> SIM_DT \<and> steps < MAX_STEPS")
    case True
    then have e: "animate_loop sim scaledDT steps d
        = animate_loop sim scaledDT (steps + 1) (animate_step sim scaledDT d)"
      by (subst animate_loop.simps) simp
    from True have "steps + 1 \<le> MAX_STEPS" by simp
    from 1(1) [OF True this]
    show ?thesis unfolding e animate_step_sel
      by (auto simp: algebra_simps of_nat_diff)
  next
    case False
    then have e: "animate_loop sim scaledDT steps d = (steps, d)"
      by (subst animate_loop.simps) auto
    from False 1(2) show ?thesis unfolding e by auto
  qed
qed


lemma animate_running:
  assumes "simRunning d"
  shows "accumDt (animate sim gs now d)
           = accumDt d + min ((now - lastTime d) * 0.001) MAX_WALL_DT
             - real (frameCount (animate sim gs now d) - frameCount d) * SIM_DT"
    and "frameCount (animate sim gs now d) - frameCount d \<le> MAX_STEPS"
    and "frameCount (animate sim gs now d) - frameCount d < MAX_STEPS
           \<Longrightarrow> accumDt (animate sim gs now d) < SIM_DT"
proof -
  define d2 where "d2 = d\<lparr>lastTime := now,
      accumDt := accumDt d + min ((now - lastTime d) * 0.001) MAX_WALL_DT\<rparr>"
  define r where "r = animate_loop sim (SIM_DT * fieldSpeed gs) 0 d2"
  have l: "fst r \<le> MAX_STEPS"
    "accumDt (snd r) = accumDt d2 - real (fst r) * SIM_DT"
    "frameCount (snd r) = frameCount d2 + fst r"
    "fst r < MAX_STEPS \<longrightarrow> accumDt (snd r) < SIM_DT"
    using animate_loop_steps [of 0 sim "SIM_DT * fieldSpeed gs" d2] unfolding r_def by auto
  have a: "accumDt (animate sim gs now d) = accumDt (snd r)"
    "frameCount (animate sim gs now d) = frameCount (snd r)"
    using assms by (simp_all add: animate_def Let_def split_beta r_def d2_def)
  have k: "frameCount (animate sim gs now d) - frameCount d = fst r"
    by (simp add: a l d2_def)
  show "accumDt (animate sim gs now d)
           = accumDt d + min ((now - lastTime d) * 0.001) MAX_WALL_DT
             - real (frameCount (animate sim gs now d) - frameCount d) * SIM_DT"
    unfolding k by (simp add: a l d2_def)
  show "frameCount (animate sim gs now d) - frameCount d \<le> MAX_STEPS"
    unfolding k by (rule l)
  show "frameCount (animate sim gs now d) - frameCount d < MAX_STEPS
           \<Longrightarrow> accumDt (animate sim gs now d) < SIM_DT"
    unfolding k using l by (simp add: a)
qed


lemma frame_50ms:
  "accumDt (animate idle_sim loop_gui 50 fresh_driver) = 0.034"
  "frameCount (animate idle_sim loop_gui 50 fresh_driver) = 4"
  "lastTime (animate idle_sim loop_gui 50 fresh_driver) = 50"
  "simRunning (animate idle_sim loop_gui 50 fresh_driver)"
  by (simp_all add: animate_def Let_def fresh_driver_def loop_gui_def idle_sim_def MAX_WALL_DT_def
      SIM_DT_def MAX_STEPS_def animate_step_def animate_loop.simps)



section \<open>The particle pool\<close>

subsection \<open>Spawning into an exhausted pool\<close>

lemma set_delete_add: "x \<notin> set xs \<Longrightarrow> set_delete x (set_add x xs) = xs"
  by (simp add: set_delete_def set_add_def)

lemma sampleHotspot_Some:
  "field s = Some f \<Longrightarrow> \<exists>c r'. sampleHotspot s r = Inr (c, r')"
  by (simp add: sampleHotspot_def Let_def split: prod.splits)

lemma pool_inv_free_clean:
  assumes "pool_inv s" "ix \<in> set (freeList s)"
  shows "ix \<notin> set (active s)" "typeArr s ix = TYPE_INACTIVE" "alpha s ix = 0"
    "entangledWith s ix = - 1" "pairWith s ix = - 1"
  using assms by (auto simp: pool_inv_def)

lemma spawnPair_rollback:
  assumes inv: "pool_inv s" and few: "length (freeList s) < 2" and fld: "field s = Some f"
  shows "\<exists>r'. spawnPair typeA typeB s r = Inr (s, r')"
proof -
  from sampleHotspot_Some [OF fld] obtain c r0 where h: "sampleHotspot s r = Inr (c, r0)"
    by blast
  show ?thesis
  proof (cases "freeList s")
    case Nil
    then show ?thesis by (simp add: spawnPair_def h alloc_def)
  next
    case (Cons ix rest)
    with few have rest: "rest = []" by simp
    have ix: "ix \<in> set (freeList s)" by (simp add: Cons)
    note cl = pool_inv_free_clean [OF inv ix]
    have u: "(typeArr s)(ix := TYPE_INACTIVE) = typeArr s" "(alpha s)(ix := 0) = alpha s"
      "(entangledWith s)(ix := - 1) = entangledWith s" "(pairWith s)(ix := - 1) = pairWith s"
      using cl by (simp_all add: fun_upd_idem)
    have "free ix (s\<lparr>freeList := [], active := set_add ix (active s)\<rparr>) = s"
      using cl(1) Cons rest by (simp add: free_def set_delete_add u)
    then show ?thesis
      by (simp add: spawnPair_def h alloc_def Cons rest)
  qed
qed


lemma pool_inv_new: "pool_inv new_ParticleSystem"
  by (simp add: pool_inv_def new_ParticleSystem_def TYPE_INACTIVE_def)

lemma pool_inv_full: "pool_inv full_pool"
  by (auto simp: pool_inv_def full_pool_def new_ParticleSystem_def TYPE_INACTIVE_def)

lemma pool_inv_almost_full: "pool_inv almost_full_pool"
  by (auto simp: pool_inv_def almost_full_pool_def new_ParticleSystem_def TYPE_INACTIVE_def)


subsection \<open>What each operation leaves alone\<close>

lemma setColor_sel [simp]:
  "freeList (setColor i t s) = freeList s" "active (setColor i t s) = active s"
  "typeArr (setColor i t s) = typeArr s" "alpha (setColor i t s) = alpha s"
  "entangledWith (setColor i t s) = entangledWith s" "pairWith (setColor i t s) = pairWith s"
  "age (setColor i t s) = age s" "lifetime (setColor i t s) = lifetime s"
  "field (setColor i t s) = field s"
  "px (setColor i t s) = px s" "py (setColor i t s) = py s" "pz (setColor i t s) = pz s"
  "annihilationFlashes (setColor i t s) = annihilationFlashes s"
  "flashHead (setColor i t s) = flashHead s"
  by (simp_all add: setColor_def)

lemma photon_init_sel [simp]:
  "freeList (fst (photon_init i x y z s r)) = freeList s"
  "active (fst (photon_init i x y z s r)) = active s"
  "typeArr (fst (photon_init i x y z s r)) = (typeArr s)(i := TYPE_PHOTON)"
  "alpha (fst (photon_init i x y z s r)) = (alpha s)(i := 1)"
  "entangledWith (fst (photon_init i x y z s r)) = (entangledWith s)(i := - 1)"
  "pairWith (fst (photon_init i x y z s r)) = (pairWith s)(i := - 1)"
  "age (fst (photon_init i x y z s r)) = (age s)(i := 0)"
  "field (fst (photon_init i x y z s r)) = field s"
  "px (fst (photon_init i x y z s r)) = (px s)(i := x)"
  "py (fst (photon_init i x y z s r)) = (py s)(i := y)"
  "pz (fst (photon_init i x y z s r)) = (pz s)(i := z)"
  "annihilationFlashes (fst (photon_init i x y z s r)) = annihilationFlashes s"
  "flashHead (fst (photon_init i x y z s r)) = flashHead s"
  by (simp_all add: photon_init_def Let_def)

lemma free_sel [simp]:
  "freeList (free i s) = i # freeList s"
  "active (free i s) = removeAll i (active s)"
  "typeArr (free i s) = (typeArr s)(i := TYPE_INACTIVE)"
  "alpha (free i s) = (alpha s)(i := 0)"
  "entangledWith (free i s) = (entangledWith s)(i := - 1)"
  "pairWith (free i s) = (pairWith s)(i := - 1)"
  "age (free i s) = age s" "field (free i s) = field s"
  "px (free i s) = px s" "py (free i s) = py s" "pz (free i s) = pz s"
  "annihilationFlashes (free i s) = annihilationFlashes s"
  "flashHead (free i s) = flashHead s"
  by (simp_all add: free_def set_delete_def)

lemma emitFlash_sel [simp]:
  "freeList (emitFlash x y z s) = freeList s" "active (emitFlash x y z s) = active s"
  "typeArr (emitFlash x y z s) = typeArr s" "alpha (emitFlash x y z s) = alpha s"
  "entangledWith (emitFlash x y z s) = entangledWith s" "pairWith (emitFlash x y z s) = pairWith s"
  "age (emitFlash x y z s) = age s" "field (emitFlash x y z s) = field s"
  "px (emitFlash x y z s) = px s" "py (emitFlash x y z s) = py s" "pz (emitFlash x y z s) = pz s"
  by (simp_all add: emitFlash_def)

lemma boost_coherence_sel [simp]:
  "freeList (boost_coherence x y z s) = freeList s" "active (boost_coherence x y z s) = active s"
  "typeArr (boost_coherence x y z s) = typeArr s" "alpha (boost_coherence x y z s) = alpha s"
  "entangledWith (boost_coherence x y z s) = entangledWith s"
  "pairWith (boost_coherence x y z s) = pairWith s"
  "age (boost_coherence x y z s) = age s"
  "px (boost_coherence x y z s) = px s" "py (boost_coherence x y z s) = py s"
  "pz (boost_coherence x y z s) = pz s"
  "annihilationFlashes (boost_coherence x y z s) = annihilationFlashes s"
  "flashHead (boost_coherence x y z s) = flashHead s"
  by (simp_all add: boost_coherence_def Let_def split: option.splits)

lemma apply_force_sel [simp]:
  "freeList (apply_force dt i s) = freeList s" "active (apply_force dt i s) = active s"
  "typeArr (apply_force dt i s) = typeArr s" "alpha (apply_force dt i s) = alpha s"
  "entangledWith (apply_force dt i s) = entangledWith s"
  "pairWith (apply_force dt i s) = pairWith s"
  "age (apply_force dt i s) = age s" "lifetime (apply_force dt i s) = lifetime s"
  "field (apply_force dt i s) = field s"
  "px (apply_force dt i s) = px s" "py (apply_force dt i s) = py s" "pz (apply_force dt i s) = pz s"
  "annihilationFlashes (apply_force dt i s) = annihilationFlashes s"
  "flashHead (apply_force dt i s) = flashHead s" "spawnAccum (apply_force dt i s) = spawnAccum s"
  by (simp_all add: apply_force_def Let_def split_beta)

lemma apply_drag_sel [simp]:
  "freeList (apply_drag i s) = freeList s" "active (apply_drag i s) = active s"
  "typeArr (apply_drag i s) = typeArr s" "alpha (apply_drag i s) = alpha s"
  "entangledWith (apply_drag i s) = entangledWith s"
  "pairWith (apply_drag i s) = pairWith s"
  "age (apply_drag i s) = age s" "lifetime (apply_drag i s) = lifetime s"
  "field (apply_drag i s) = field s"
  "px (apply_drag i s) = px s" "py (apply_drag i s) = py s" "pz (apply_drag i s) = pz s"
  "annihilationFlashes (apply_drag i s) = annihilationFlashes s"
  "flashHead (apply_drag i s) = flashHead s" "spawnAccum (apply_drag i s) = spawnAccum s"
  by (simp_all add: apply_drag_def)

lemma advance_position_sel [simp]:
  "freeList (advance_position dt i s) = freeList s" "active (advance_position dt i s) = active s"
  "typeArr (advance_position dt i s) = typeArr s" "alpha (advance_position dt i s) = alpha s"
  "entangledWith (advance_position dt i s) = entangledWith s"
  "pairWith (advance_position dt i s) = pairWith s"
  "age (advance_position dt i s) = age s" "lifetime (advance_position dt i s) = lifetime s"
  "field (advance_position dt i s) = field s"
  "annihilationFlashes (advance_position dt i s) = annihilationFlashes s"
  "flashHead (advance_position dt i s) = flashHead s"
  "spawnAccum (advance_position dt i s) = spawnAccum s"
  by (simp_all add: advance_position_def)

lemma wrap_x_sel [simp]:
  "freeList (wrap_x i s) = freeList s" "active (wrap_x i s) = active s"
  "typeArr (wrap_x i s) = typeArr s" "alpha (wrap_x i s) = alpha s"
  "entangledWith (wrap_x i s) = entangledWith s" "pairWith (wrap_x i s) = pairWith s"
  "age (wrap_x i s) = age s" "lifetime (wrap_x i s) = lifetime s" "field (wrap_x i s) = field s"
  "annihilationFlashes (wrap_x i s) = annihilationFlashes s"
  "flashHead (wrap_x i s) = flashHead s" "spawnAccum (wrap_x i s) = spawnAccum s"
  by (simp_all add: wrap_x_def Let_def)

lemma wrap_y_sel [simp]:
  "freeList (wrap_y i s) = freeList s" "active (wrap_y i s) = active s"
  "typeArr (wrap_y i s) = typeArr s" "alpha (wrap_y i s) = alpha s"
  "entangledWith (wrap_y i s) = entangledWith s" "pairWith (wrap_y i s) = pairWith s"
  "age (wrap_y i s) = age s" "lifetime (wrap_y i s) = lifetime s" "field (wrap_y i s) = field s"
  "annihilationFlashes (wrap_y i s) = annihilationFlashes s"
  "flashHead (wrap_y i s) = flashHead s" "spawnAccum (wrap_y i s) = spawnAccum s"
  by (simp_all add: wrap_y_def Let_def)

lemma wrap_z_sel [simp]:
  "freeList (wrap_z i s) = freeList s" "active (wrap_z i s) = active s"
  "typeArr (wrap_z i s) = typeArr s" "alpha (wrap_z i s) = alpha s"
  "entangledWith (wrap_z i s) = entangledWith s" "pairWith (wrap_z i s) = pairWith s"
  "age (wrap_z i s) = age s" "lifetime (wrap_z i s) = lifetime s" "field (wrap_z i s) = field s"
  "annihilationFlashes (wrap_z i s) = annihilationFlashes s"
  "flashHead (wrap_z i s) = flashHead s" "spawnAccum (wrap_z i s) = spawnAccum s"
  by (simp_all add: wrap_z_def Let_def)

lemma fade_sel [simp]:
  "freeList (fade i s) = freeList s" "active (fade i s) = active s"
  "typeArr (fade i s) = typeArr s"
  "entangledWith (fade i s) = entangledWith s" "pairWith (fade i s) = pairWith s"
  "age (fade i s) = age s" "lifetime (fade i s) = lifetime s" "field (fade i s) = field s"
  "px (fade i s) = px s" "py (fade i s) = py s" "pz (fade i s) = pz s"
  "annihilationFlashes (fade i s) = annihilationFlashes s"
  "flashHead (fade i s) = flashHead s" "spawnAccum (fade i s) = spawnAccum s"
  by (simp_all add: fade_def Let_def)

lemma fade_alpha: "j \<noteq> i \<Longrightarrow> alpha (fade i s) j = alpha s j"
  by (simp add: fade_def Let_def)

lemma move_particle_sel [simp]:
  "freeList (move_particle dt i s) = freeList s" "active (move_particle dt i s) = active s"
  "typeArr (move_particle dt i s) = typeArr s"
  "entangledWith (move_particle dt i s) = entangledWith s"
  "pairWith (move_particle dt i s) = pairWith s"
  "age (move_particle dt i s) = (age s)(i := age s i + dt)"
  "lifetime (move_particle dt i s) = lifetime s"
  "field (move_particle dt i s) = field s"
  "annihilationFlashes (move_particle dt i s) = annihilationFlashes s"
  "flashHead (move_particle dt i s) = flashHead s"
  "spawnAccum (move_particle dt i s) = spawnAccum s"
  by (simp_all add: move_particle_def Let_def)

lemma move_particle_alpha:
  "j \<noteq> i \<Longrightarrow> alpha (move_particle dt i s) j = alpha s j"
  by (simp add: move_particle_def Let_def fade_alpha)

subsection \<open>Allocation and freeing keep the invariant\<close>

lemma alloc_Nil: "freeList s = [] \<Longrightarrow> alloc s = (- 1, s)"
  by (simp add: alloc_def)

lemma alloc_Cons:
  "freeList s = ix # rest \<Longrightarrow> ix \<notin> set (active s) \<Longrightarrow>
     alloc s = (int ix, s\<lparr>freeList := rest, active := active s @ [ix]\<rparr>)"
  by (simp add: alloc_def set_add_def)

lemma pool_inv_alloc:
  assumes "pool_inv s" "freeList s = ix # rest"
  shows "pool_inv (s\<lparr>freeList := rest, active := active s @ [ix]\<rparr>)"
    and "ix \<notin> set (active s)" and "pairWith s ix = - 1" and "entangledWith s ix = - 1"
  using assms by (auto simp: pool_inv_def)

lemma pool_inv_photon_init:
  assumes "pool_inv s" "i \<in> set (active s)" "pairWith s i = - 1"
  shows "pool_inv (fst (photon_init i x y z s r))"
proof -
  from assms have e: "entangledWith s i = - 1" by (auto simp: pool_inv_def)
  have u: "(pairWith s)(i := - 1) = pairWith s" "(entangledWith s)(i := - 1) = entangledWith s"
    using assms(3) e by (simp_all add: fun_upd_idem)
  show ?thesis
    using assms(1,2) unfolding pool_inv_def
    by (simp add: u)
qed


lemma photons_ok_refl: "pool_inv s \<Longrightarrow> photons_ok s s"
  by (simp add: photons_ok_def)

lemma photons_ok_trans: "photons_ok s s1 \<Longrightarrow> photons_ok s1 s2 \<Longrightarrow> photons_ok s s2"
  unfolding photons_ok_def by (auto simp: subset_iff)

lemma photons_ok_step:
  assumes inv: "pool_inv s" and fl: "freeList s = ix # rest"
  shows "photons_ok s (fst (photon_init ix x y z (s\<lparr>freeList := rest, active := active s @ [ix]\<rparr>) r))"
proof -
  let ?s1 = "s\<lparr>freeList := rest, active := active s @ [ix]\<rparr>"
  note a = pool_inv_alloc [OF inv fl]
  have i1: "pool_inv (fst (photon_init ix x y z ?s1 r))"
    by (rule pool_inv_photon_init) (simp_all add: a)
  have u: "(pairWith s)(ix := - 1) = pairWith s"
    using a(3) by (simp add: fun_upd_idem)
  show ?thesis
    unfolding photons_ok_def
    using i1 a(2) a(3) by (auto simp: u gone_def)
qed

lemma photons_loop_ok:
  "pool_inv s \<Longrightarrow> photons_ok s (fst (spawnAnnihilationPhotons_loop k x y z s r))"
proof (induction k arbitrary: s r)
  case 0
  then show ?case by (simp add: photons_ok_refl)
next
  case (Suc k)
  show ?case
  proof (cases "freeList s")
    case Nil
    then show ?thesis using Suc.prems by (simp add: alloc_Nil photons_ok_refl)
  next
    case (Cons ix rest)
    note a = pool_inv_alloc [OF Suc.prems Cons]
    let ?s1 = "s\<lparr>freeList := rest, active := active s @ [ix]\<rparr>"
    let ?p = "photon_init ix x y z ?s1 r"
    have st: "photons_ok s (fst ?p)" by (rule photons_ok_step [OF Suc.prems Cons])
    then have "pool_inv (fst ?p)" by (simp add: photons_ok_def)
    from Suc.IH [OF this, of "snd ?p"]
    have "photons_ok (fst ?p) (fst (spawnAnnihilationPhotons_loop k x y z (fst ?p) (snd ?p)))" .
    from photons_ok_trans [OF st this] show ?thesis
      by (simp add: alloc_Cons [OF Cons a(2)] split_beta)
  qed
qed


lemma pool_invD:
  assumes "pool_inv s"
  shows "distinct (freeList s)" "distinct (active s)" "set (freeList s) \<inter> set (active s) = {}"
    and "\<And>j. j \<notin> set (active s) \<Longrightarrow>
           typeArr s j = TYPE_INACTIVE \<and> alpha s j = 0 \<and> entangledWith s j = - 1 \<and> pairWith s j = - 1"
    and "\<And>j. entangledWith s j = pairWith s j"
    and "\<And>j. pairWith s j \<noteq> - 1 \<Longrightarrow>
           0 \<le> pairWith s j \<and> pairWith s j \<noteq> int j \<and>
           nat (pairWith s j) \<in> set (active s) \<and>
           pairWith s (nat (pairWith s j)) = int j"
  using assms unfolding pool_inv_def by blast+

lemma pool_invI:
  assumes "distinct (freeList s)" "distinct (active s)" "set (freeList s) \<inter> set (active s) = {}"
    and "\<And>j. j \<notin> set (active s) \<Longrightarrow>
           typeArr s j = TYPE_INACTIVE \<and> alpha s j = 0 \<and> entangledWith s j = - 1 \<and> pairWith s j = - 1"
    and "\<And>j. entangledWith s j = pairWith s j"
    and "\<And>j. pairWith s j \<noteq> - 1 \<Longrightarrow>
           0 \<le> pairWith s j \<and> pairWith s j \<noteq> int j \<and>
           nat (pairWith s j) \<in> set (active s) \<and>
           pairWith s (nat (pairWith s j)) = int j"
  shows "pool_inv s"
  using assms unfolding pool_inv_def by blast

lemma pool_inv_active_paired:
  assumes "pool_inv s" "pairWith s j \<noteq> - 1"
  shows "j \<in> set (active s)"
  using pool_invD(4) [OF assms(1), of j] assms(2) by blast

lemma pool_inv_free_unpaired:
  assumes inv: "pool_inv s" and a: "a \<in> set (active s)" and u: "pairWith s a = - 1"
  shows "pool_inv (free a s)"
proof (rule pool_invI)
  note d = pool_invD [OF inv]
  show "distinct (freeList (free a s))" using d(1,3) a by auto
  show "distinct (active (free a s))" using d(2) by (simp add: distinct_removeAll)
  show "set (freeList (free a s)) \<inter> set (active (free a s)) = {}" using d(3) by auto
  show "\<And>j. j \<notin> set (active (free a s)) \<Longrightarrow>
           typeArr (free a s) j = TYPE_INACTIVE \<and> alpha (free a s) j = 0 \<and>
           entangledWith (free a s) j = - 1 \<and> pairWith (free a s) j = - 1"
    using d(4) by auto
  show "\<And>j. entangledWith (free a s) j = pairWith (free a s) j" using d(5) by simp
  show "\<And>j. pairWith (free a s) j \<noteq> - 1 \<Longrightarrow>
           0 \<le> pairWith (free a s) j \<and> pairWith (free a s) j \<noteq> int j \<and>
           nat (pairWith (free a s) j) \<in> set (active (free a s)) \<and>
           pairWith (free a s) (nat (pairWith (free a s) j)) = int j"
  proof -
    fix j assume "pairWith (free a s) j \<noteq> - 1"
    then have ja: "j \<noteq> a" and pj: "pairWith s j \<noteq> - 1" by (auto split: if_splits)
    from d(6) [OF pj] have p: "0 \<le> pairWith s j" "nat (pairWith s j) \<in> set (active s)"
      "pairWith s (nat (pairWith s j)) = int j" "pairWith s j \<noteq> int j" by simp_all
    from p(3) u have "nat (pairWith s j) \<noteq> a" by auto
    with ja p show "0 \<le> pairWith (free a s) j \<and> pairWith (free a s) j \<noteq> int j \<and>
           nat (pairWith (free a s) j) \<in> set (active (free a s)) \<and>
           pairWith (free a s) (nat (pairWith (free a s) j)) = int j"
      by simp
  qed
qed

lemma pool_inv_free_pair:
  assumes inv: "pool_inv s" and a: "a \<in> set (active s)" and p: "pairWith s a = int c"
  shows "pool_inv (free c (free a s))"
proof (rule pool_invI)
  note d = pool_invD [OF inv]
  from d(6) [of a] p have c: "c \<in> set (active s)" "pairWith s c = int a" "c \<noteq> a"
    by simp_all
  show "distinct (freeList (free c (free a s)))" using d(1,3) a c by auto
  show "distinct (active (free c (free a s)))" using d(2) by (simp add: distinct_removeAll)
  show "set (freeList (free c (free a s))) \<inter> set (active (free c (free a s))) = {}"
    using d(3) by auto
  show "\<And>j. j \<notin> set (active (free c (free a s))) \<Longrightarrow>
           typeArr (free c (free a s)) j = TYPE_INACTIVE \<and> alpha (free c (free a s)) j = 0 \<and>
           entangledWith (free c (free a s)) j = - 1 \<and> pairWith (free c (free a s)) j = - 1"
    using d(4) by auto
  show "\<And>j. entangledWith (free c (free a s)) j = pairWith (free c (free a s)) j"
    using d(5) by simp
  show "\<And>j. pairWith (free c (free a s)) j \<noteq> - 1 \<Longrightarrow>
           0 \<le> pairWith (free c (free a s)) j \<and> pairWith (free c (free a s)) j \<noteq> int j \<and>
           nat (pairWith (free c (free a s)) j) \<in> set (active (free c (free a s))) \<and>
           pairWith (free c (free a s)) (nat (pairWith (free c (free a s)) j)) = int j"
  proof -
    fix j assume "pairWith (free c (free a s)) j \<noteq> - 1"
    then have ja: "j \<noteq> a" "j \<noteq> c" and pj: "pairWith s j \<noteq> - 1" by (auto split: if_splits)
    from d(6) [OF pj] have q: "0 \<le> pairWith s j" "nat (pairWith s j) \<in> set (active s)"
      "pairWith s (nat (pairWith s j)) = int j" "pairWith s j \<noteq> int j" by simp_all
    from q(3) p c(2) ja have "nat (pairWith s j) \<noteq> a" "nat (pairWith s j) \<noteq> c" by auto
    with ja q show "0 \<le> pairWith (free c (free a s)) j \<and>
           pairWith (free c (free a s)) j \<noteq> int j \<and>
           nat (pairWith (free c (free a s)) j) \<in> set (active (free c (free a s))) \<and>
           pairWith (free c (free a s)) (nat (pairWith (free c (free a s)) j)) = int j"
      by simp
  qed
qed

subsection \<open>Processing one entry of the death list\<close>

lemma process_entry_inactive:
  "a \<notin> set (active s) \<Longrightarrow> process_entry (a, b, f) (s, r) = (s, r)"
  by (simp add: process_entry_def)

lemma process_entry_active:
  "a \<in> set (active s) \<Longrightarrow>
     process_entry (a, b, f) (s, r) =
       (free_entry a b (fst (flash_part a b f s r)), snd (flash_part a b f s r))"
  by (simp add: process_entry_def flash_part_def free_entry_def Let_def split_beta)

lemma photons_ok_cong:
  assumes "photons_ok s s'"
    and "freeList s'' = freeList s'" "active s'' = active s'" "typeArr s'' = typeArr s'"
    and "alpha s'' = alpha s'" "entangledWith s'' = entangledWith s'" "pairWith s'' = pairWith s'"
    and "age s'' = age s'"
  shows "photons_ok s s''"
  using assms(1) unfolding photons_ok_def pool_inv_def gone_def assms(2-8) .

lemma flash_part_ok:
  assumes "pool_inv s"
  shows "photons_ok s (fst (flash_part a b f s r))"
proof (cases f)
  case False
  then show ?thesis using assms by (simp add: flash_part_def Let_def photons_ok_refl)
next
  case True
  let ?ax = "(px s a + (if b \<noteq> - 1 then px s (nat b) else px s a)) * 0.5"
  let ?ay = "(py s a + (if b \<noteq> - 1 then py s (nat b) else py s a)) * 0.5"
  let ?az = "(pz s a + (if b \<noteq> - 1 then pz s (nat b) else pz s a)) * 0.5"
  let ?p = "fst (spawnAnnihilationPhotons ?ax ?ay ?az s r)"
  have p: "photons_ok s ?p"
    unfolding spawnAnnihilationPhotons_def by (rule photons_loop_ok [OF assms])
  have "photons_ok s (boost_coherence ?ax ?ay ?az (emitFlash ?ax ?ay ?az ?p))"
    by (rule photons_ok_cong [OF p]) simp_all
  then show ?thesis using True by (simp add: flash_part_def Let_def split_beta)
qed

lemma gone_free: "gone s j \<Longrightarrow> gone (free x s) j"
  by (auto simp: gone_def)

lemma gone_free_entry: "gone s j \<Longrightarrow> gone (free_entry a b s) j"
  by (simp add: free_entry_def Let_def gone_free)

lemma free_entry_active:
  "set (active (free_entry a b s)) =
     set (active s) - {a} - (if b \<noteq> - 1 \<and> 0 \<le> b then {nat b} else {})"
  by (auto simp: free_entry_def Let_def active_has_def)

lemma free_entry_pairWith:
  "j \<noteq> a \<Longrightarrow> int j \<noteq> b \<Longrightarrow> pairWith (free_entry a b s) j = pairWith s j"
  by (auto simp: free_entry_def Let_def active_has_def)

lemma pool_inv_free_entry:
  assumes inv: "pool_inv s" and a: "a \<in> set (active s)"
    and ok: "pairWith s a = b \<or> (gone s a \<and> (b = - 1 \<or> (0 \<le> b \<and> gone s (nat b))))"
  shows "pool_inv (free_entry a b s)"
proof -
  note d = pool_invD [OF inv]
  show ?thesis
  proof (cases "pairWith s a = b")
    case True
    show ?thesis
    proof (cases "b = - 1")
      case True
      with \<open>pairWith s a = b\<close> inv a show ?thesis
        by (simp add: free_entry_def Let_def pool_inv_free_unpaired)
    next
      case False
      with d(6) [of a] True have c: "0 \<le> b" "nat b \<in> set (active s)" "b \<noteq> int a" by simp_all
      then have "pairWith s a = int (nat b)" using True by simp
      moreover from c have "nat b \<noteq> a" by linarith
      ultimately show ?thesis using pool_inv_free_pair [OF inv a, of "nat b"] c False
        by (simp add: free_entry_def Let_def active_has_def)
    qed
  next
    case False
    with ok have g: "gone s a" "b = - 1 \<or> (0 \<le> b \<and> gone s (nat b))" by simp_all
    from g(1) a have u: "pairWith s a = - 1" by (simp add: gone_def)
    have i2: "pool_inv (free a s)" by (rule pool_inv_free_unpaired [OF inv a u])
    show ?thesis
    proof (cases "b \<noteq> - 1 \<and> active_has (free a s) b")
      case True
      then have c: "nat b \<in> set (active (free a s))" "nat b \<in> set (active s)"
        by (simp_all add: active_has_def)
      with g(2) True have "pairWith s (nat b) = - 1" by (auto simp: gone_def)
      then have "pairWith (free a s) (nat b) = - 1" by simp
      from pool_inv_free_unpaired [OF i2 c(1) this] True show ?thesis
        by (simp add: free_entry_def Let_def)
    next
      case False
      then show ?thesis using i2 by (auto simp: free_entry_def Let_def)
    qed
  qed
qed

lemma entry_settled_free_entry:
  assumes inv: "pool_inv s" and a: "a \<in> set (active s)"
    and ok: "pairWith s a = b \<or> (gone s a \<and> (b = - 1 \<or> (0 \<le> b \<and> gone s (nat b))))"
  shows "entry_settled (free_entry a b s) (a, b, f)"
proof -
  have ga: "gone (free_entry a b s) a" by (simp add: gone_def free_entry_active)
  have "b = - 1 \<or> 0 \<le> b"
    using ok pool_invD(6) [OF inv, of a] by auto
  moreover have "b \<noteq> - 1 \<Longrightarrow> 0 \<le> b \<Longrightarrow> gone (free_entry a b s) (nat b)"
    by (simp add: gone_def free_entry_active)
  ultimately show ?thesis using ga by (auto simp: entry_settled_def)
qed

lemma entry_ok_photons:
  assumes "photons_ok s s1" "entry_ok s e"
  shows "entry_ok s1 e"
  using assms unfolding photons_ok_def entry_ok_def entry_settled_def
  by (auto split: prod.splits)

lemma entry_ok_free_entry:
  assumes inv: "pool_inv s" and a: "a \<in> set (active s)"
    and ok: "pairWith s a = b \<or> (gone s a \<and> (b = - 1 \<or> (0 \<le> b \<and> gone s (nat b))))"
    and ok': "entry_ok s e'"
  shows "entry_ok (free_entry a b s) e'"
proof -
  obtain a' b' f' where e': "e' = (a', b', f')" by (cases e') auto
  note st = entry_settled_free_entry [OF inv a ok, of True, unfolded entry_settled_def, simplified]
  show ?thesis
  proof (cases "entry_settled s e'")
    case True
    then have "entry_settled (free_entry a b s) e'"
      unfolding e' entry_settled_def by (auto simp: gone_free_entry)
    then show ?thesis by (simp add: entry_ok_def e')
  next
    case False
    with ok' have c: "a' \<in> set (active s)" "pairWith s a' = b'"
      by (simp_all add: entry_ok_def e')
    consider (same) "a' = a" | (partner) "a' \<noteq> a" "int a' = b" | (other) "a' \<noteq> a" "int a' \<noteq> b"
      by blast
    then show ?thesis
    proof cases
      case same
      have "b' = - 1 \<or> (0 \<le> b' \<and> gone (free_entry a b s) (nat b'))"
      proof (cases "pairWith s a = b")
        case True
        with c same st show ?thesis by simp
      next
        case False
        with ok a have "pairWith s a = - 1" by (auto simp: gone_def)
        with c same show ?thesis by simp
      qed
      with st same show ?thesis by (simp add: entry_ok_def entry_settled_def e')
    next
      case partner
      then have nb: "nat b = a'" "b \<noteq> - 1" "0 \<le> b" by auto
      have g: "gone (free_entry a b s) a'"
        using nb by (simp add: gone_def free_entry_active)
      have "b' = - 1 \<or> (0 \<le> b' \<and> gone (free_entry a b s) (nat b'))"
      proof (cases "pairWith s a = b")
        case True
        with pool_invD(6) [OF inv, of a] nb have "pairWith s a' = int a" by auto
        with c st show ?thesis by auto
      next
        case False
        with ok nb c have "pairWith s a' = - 1" by (auto simp: gone_def)
        with c show ?thesis by simp
      qed
      with g show ?thesis by (simp add: entry_ok_def entry_settled_def e')
    next
      case other
      then have "a' \<in> set (active (free_entry a b s))"
        using c(1) by (auto simp: free_entry_active)
      moreover have "pairWith (free_entry a b s) a' = b'"
        using other c(2) by (simp add: free_entry_pairWith)
      ultimately show ?thesis by (simp add: entry_ok_def e')
    qed
  qed
qed

lemma process_entry_inv:
  assumes inv: "pool_inv s" and ok: "entry_ok s e"
  shows "pool_inv (fst (process_entry e (s, r)))"
    and "entry_settled (fst (process_entry e (s, r))) e"
    and "\<And>e'. entry_ok s e' \<Longrightarrow> entry_ok (fst (process_entry e (s, r))) e'"
    and "\<And>j. gone s j \<Longrightarrow> gone (fst (process_entry e (s, r))) j"
proof -
  obtain a b f where e: "e = (a, b, f)" by (cases e) auto
  let ?s1 = "fst (flash_part a b f s r)"
  have p: "photons_ok s ?s1" by (rule flash_part_ok [OF inv])
  then have i1: "pool_inv ?s1" by (simp add: photons_ok_def)
  have ok1: "\<And>e'. entry_ok s e' \<Longrightarrow> entry_ok ?s1 e'" by (rule entry_ok_photons [OF p])
  have g1: "\<And>j. gone s j \<Longrightarrow> gone ?s1 j" using p by (simp add: photons_ok_def)
  show "pool_inv (fst (process_entry e (s, r)))"
    and "entry_settled (fst (process_entry e (s, r))) e"
    and "\<And>e'. entry_ok s e' \<Longrightarrow> entry_ok (fst (process_entry e (s, r))) e'"
    and "\<And>j. gone s j \<Longrightarrow> gone (fst (process_entry e (s, r))) j"
  proof -
    show "pool_inv (fst (process_entry e (s, r)))"
    proof (cases "a \<in> set (active s)")
      case False
      then show ?thesis using inv by (simp add: e process_entry_inactive)
    next
      case True
      then have a1: "a \<in> set (active ?s1)" using p by (auto simp: photons_ok_def)
      from ok1 [OF ok] a1
      have c: "pairWith ?s1 a = b \<or> (gone ?s1 a \<and> (b = - 1 \<or> (0 \<le> b \<and> gone ?s1 (nat b))))"
        by (auto simp: entry_ok_def entry_settled_def e)
      show ?thesis using pool_inv_free_entry [OF i1 a1 c] True
        by (simp add: e process_entry_active)
    qed
    show "entry_settled (fst (process_entry e (s, r))) e"
    proof (cases "a \<in> set (active s)")
      case False
      then show ?thesis using ok by (simp add: e process_entry_inactive entry_ok_def)
    next
      case True
      then have a1: "a \<in> set (active ?s1)" using p by (auto simp: photons_ok_def)
      from ok1 [OF ok] a1
      have c: "pairWith ?s1 a = b \<or> (gone ?s1 a \<and> (b = - 1 \<or> (0 \<le> b \<and> gone ?s1 (nat b))))"
        by (auto simp: entry_ok_def entry_settled_def e)
      show ?thesis using entry_settled_free_entry [OF i1 a1 c, of f] True
        by (simp add: e process_entry_active)
    qed
    show "\<And>e'. entry_ok s e' \<Longrightarrow> entry_ok (fst (process_entry e (s, r))) e'"
    proof -
      fix e' assume o: "entry_ok s e'"
      show "entry_ok (fst (process_entry e (s, r))) e'"
      proof (cases "a \<in> set (active s)")
        case False
        then show ?thesis using o by (simp add: e process_entry_inactive)
      next
        case True
        then have a1: "a \<in> set (active ?s1)" using p by (auto simp: photons_ok_def)
        from ok1 [OF ok] a1
        have c: "pairWith ?s1 a = b \<or> (gone ?s1 a \<and> (b = - 1 \<or> (0 \<le> b \<and> gone ?s1 (nat b))))"
          by (auto simp: entry_ok_def entry_settled_def e)
        show ?thesis using entry_ok_free_entry [OF i1 a1 c ok1 [OF o]] True
          by (simp add: e process_entry_active)
      qed
    qed
    show "\<And>j. gone s j \<Longrightarrow> gone (fst (process_entry e (s, r))) j"
    proof -
      fix j assume g: "gone s j"
      show "gone (fst (process_entry e (s, r))) j"
      proof (cases "a \<in> set (active s)")
        case False
        then show ?thesis using g by (simp add: e process_entry_inactive)
      next
        case True
        then show ?thesis using gone_free_entry [OF g1 [OF g]]
          by (simp add: e process_entry_active)
      qed
    qed
  qed
qed

lemma process_loop_inv:
  assumes "pool_inv s" "\<forall>e \<in> set es. entry_ok s e"
  shows "pool_inv (fst (fold process_entry es (s, r))) \<and>
         (\<forall>e \<in> set es. entry_settled (fst (fold process_entry es (s, r))) e) \<and>
         (\<forall>e. entry_settled s e \<longrightarrow> entry_settled (fst (fold process_entry es (s, r))) e)"
  using assms
proof (induction es arbitrary: s r)
  case Nil
  then show ?case by simp
next
  case (Cons e es)
  obtain s1 r1 where p: "process_entry e (s, r) = (s1, r1)" by (cases "process_entry e (s, r)") auto
  from Cons.prems have ok: "entry_ok s e" by simp
  note pi = process_entry_inv [OF Cons.prems(1) ok, where r = r, unfolded p, simplified]
  have oks: "\<forall>e' \<in> set es. entry_ok s1 e'" using Cons.prems(2) pi(3) by simp
  have stab: "\<And>e'. entry_settled s e' \<Longrightarrow> entry_settled s1 e'"
    using pi(4) unfolding entry_settled_def by (auto split: prod.splits)
  have f: "fold process_entry (e # es) (s, r) = fold process_entry es (s1, r1)"
    by (simp add: p)
  let ?t = "fst (fold process_entry es (s1, r1))"
  from Cons.IH [OF pi(1) oks, of r1]
  have ih: "pool_inv ?t" "\<And>e'. e' \<in> set es \<Longrightarrow> entry_settled ?t e'"
    "\<And>e'. entry_settled s1 e' \<Longrightarrow> entry_settled ?t e'"
    by blast+
  show ?case
    unfolding f
  proof (intro conjI ballI allI impI)
    show "pool_inv ?t" by (rule ih(1))
    show "\<And>e'. e' \<in> set (e # es) \<Longrightarrow> entry_settled ?t e'"
      using ih(2) ih(3) [OF pi(2)] by auto
    show "\<And>e'. entry_settled s e' \<Longrightarrow> entry_settled ?t e'"
      using ih(3) stab by blast
  qed
qed

subsection \<open>Spawning keeps the invariant\<close>

lemma setColor_spawnAccum [simp]: "spawnAccum (setColor i t s) = spawnAccum s"
  by (simp add: setColor_def)

lemma spawn_init_sel [simp]:
  "freeList (fst (spawn_init c v life ix t sv s r)) = freeList s"
  "active (fst (spawn_init c v life ix t sv s r)) = active s"
  "entangledWith (fst (spawn_init c v life ix t sv s r)) = entangledWith s"
  "pairWith (fst (spawn_init c v life ix t sv s r)) = pairWith s"
  "field (fst (spawn_init c v life ix t sv s r)) = field s"
  "typeArr (fst (spawn_init c v life ix t sv s r)) = (typeArr s)(ix := t mod 256)"
  "alpha (fst (spawn_init c v life ix t sv s r)) = (alpha s)(ix := 1)"
  "age (fst (spawn_init c v life ix t sv s r)) = (age s)(ix := 0)"
  "lifetime (fst (spawn_init c v life ix t sv s r)) = (lifetime s)(ix := life)"
  "spawnAccum (fst (spawn_init c v life ix t sv s r)) = spawnAccum s"
  "annihilationFlashes (fst (spawn_init c v life ix t sv s r)) = annihilationFlashes s"
  by (simp_all add: spawn_init_def Let_def split_beta)

lemma pool_inv_cong:
  assumes "freeList s' = freeList s" "active s' = active s" "typeArr s' = typeArr s"
    and "entangledWith s' = entangledWith s" "pairWith s' = pairWith s"
    and "\<And>j. j \<notin> set (active s) \<Longrightarrow> alpha s' j = alpha s j"
  shows "pool_inv s' = pool_inv s"
  unfolding pool_inv_def assms(1-5) using assms(6) by auto

lemma pool_inv_pair_added:
  assumes inv: "pool_inv s" and fl: "freeList s = a # b # rest"
    and s': "freeList s' = rest" "active s' = active s @ [a, b]"
      "pairWith s' = (pairWith s)(a := int b, b := int a)"
      "entangledWith s' = (entangledWith s)(a := int b, b := int a)"
      "\<And>j. j \<noteq> a \<Longrightarrow> j \<noteq> b \<Longrightarrow> typeArr s' j = typeArr s j \<and> alpha s' j = alpha s j"
  shows "pool_inv s'"
proof (rule pool_invI)
  note d = pool_invD [OF inv]
  from d(1) fl have ab: "a \<noteq> b" "a \<notin> set rest" "b \<notin> set rest" "distinct rest" by auto
  from d(3) fl have na: "a \<notin> set (active s)" "b \<notin> set (active s)" by auto
  from d(4) [OF na(1)] d(4) [OF na(2)] have cl: "pairWith s a = - 1" "pairWith s b = - 1" by simp_all
  show "distinct (freeList s')" using ab by (simp add: s')
  show "distinct (active s')" using d(2) na ab by (simp add: s')
  show "set (freeList s') \<inter> set (active s') = {}" using d(3) fl ab by (auto simp: s')
  show "\<And>j. j \<notin> set (active s') \<Longrightarrow>
           typeArr s' j = TYPE_INACTIVE \<and> alpha s' j = 0 \<and>
           entangledWith s' j = - 1 \<and> pairWith s' j = - 1"
    using d(4) s'(5) by (auto simp: s'(2,3,4))
  show "\<And>j. entangledWith s' j = pairWith s' j" using d(5) by (simp add: s')
  show "\<And>j. pairWith s' j \<noteq> - 1 \<Longrightarrow>
           0 \<le> pairWith s' j \<and> pairWith s' j \<noteq> int j \<and>
           nat (pairWith s' j) \<in> set (active s') \<and>
           pairWith s' (nat (pairWith s' j)) = int j"
  proof -
    fix j assume p: "pairWith s' j \<noteq> - 1"
    show "0 \<le> pairWith s' j \<and> pairWith s' j \<noteq> int j \<and>
           nat (pairWith s' j) \<in> set (active s') \<and>
           pairWith s' (nat (pairWith s' j)) = int j"
    proof (cases "j = a \<or> j = b")
      case True
      then show ?thesis using ab by (auto simp: s')
    next
      case False
      with p have pj: "pairWith s j \<noteq> - 1" by (simp add: s')
      from d(6) [OF pj] have q: "0 \<le> pairWith s j" "nat (pairWith s j) \<in> set (active s)"
        "pairWith s (nat (pairWith s j)) = int j" "pairWith s j \<noteq> int j" by simp_all
      from q(2) na have "nat (pairWith s j) \<noteq> a" "nat (pairWith s j) \<noteq> b" by auto
      with False q show ?thesis by (simp add: s')
    qed
  qed
qed

lemma spawnPair_success:
  assumes inv: "pool_inv s" and fl: "freeList s = a # b # rest" and fld: "field s = Some f"
  shows "\<exists>s' r'. spawnPair typeA typeB s r = Inr (s', r') \<and>
           freeList s' = rest \<and> active s' = active s @ [a, b] \<and>
           pairWith s' = (pairWith s)(a := int b, b := int a) \<and>
           entangledWith s' = (entangledWith s)(a := int b, b := int a) \<and>
           typeArr s' = (typeArr s)(a := typeA mod 256, b := typeB mod 256) \<and>
           alpha s' = (alpha s)(a := 1, b := 1) \<and>
           age s' = (age s)(a := 0, b := 0) \<and>
           (\<forall>j. j \<noteq> a \<longrightarrow> j \<noteq> b \<longrightarrow> lifetime s' j = lifetime s j) \<and>
           field s' = field s \<and> spawnAccum s' = spawnAccum s"
proof -
  from sampleHotspot_Some [OF fld] obtain c r0 where h: "sampleHotspot s r = Inr (c, r0)"
    by blast
  note d = pool_invD [OF inv]
  from d(1) fl have ab: "a \<noteq> b" by auto
  from d(3) fl have na: "a \<notin> set (active s)" "b \<notin> set (active s)" by auto
  show ?thesis
    using ab na
    by (simp add: spawnPair_def h alloc_def fl set_add_def Let_def split_beta fun_upd_twist)
qed

lemma pool_inv_spawnPair:
  assumes inv: "pool_inv s" and r: "spawnPair typeA typeB s r = Inr (s', r')"
  shows "pool_inv s'"
proof -
  from r obtain f where fld: "field s = Some f"
    by (cases "field s") (simp_all add: spawnPair_def sampleHotspot_def)
  show ?thesis
  proof (cases "length (freeList s) < 2")
    case True
    from spawnPair_rollback [OF inv True fld, of typeA typeB r] r inv show ?thesis by auto
  next
    case False
    then obtain a b rest where fl: "freeList s = a # b # rest"
      by (cases "freeList s"; cases "tl (freeList s)") auto
    from spawnPair_success [OF inv fl fld, of typeA typeB r] r
    have s': "freeList s' = rest" "active s' = active s @ [a, b]"
      "pairWith s' = (pairWith s)(a := int b, b := int a)"
      "entangledWith s' = (entangledWith s)(a := int b, b := int a)"
      "typeArr s' = (typeArr s)(a := typeA mod 256, b := typeB mod 256)"
      "alpha s' = (alpha s)(a := 1, b := 1)"
      by auto
    show ?thesis
      by (rule pool_inv_pair_added [OF inv fl s'(1-4)]) (simp add: s'(5,6))
  qed
qed

lemma spawnPair_field:
  assumes r: "spawnPair typeA typeB s r = Inr (s', r')"
  shows "field s' = field s"
  using r
  by (auto simp: spawnPair_def alloc_def Let_def split_beta free_def
      split: sum.splits list.splits if_splits)

lemma pool_inv_inject_loop:
  "pool_inv s \<Longrightarrow> inject_loop acc s r = Inr (acc', s', r') \<Longrightarrow> pool_inv s'"
proof (induction acc s r rule: inject_loop.induct)
  case (1 acc s r)
  show ?case
  proof (cases "acc \<ge> 1.0")
    case False
    with 1(3) have "s' = s" by (subst (asm) inject_loop.simps) simp
    with 1(2) show ?thesis by simp
  next
    case True
    let ?sp = "if shd r < 0.5 then spawnPair TYPE_ELECTRON TYPE_POSITRON s (stl r)
               else if shd r < 0.8 then spawnPair TYPE_HIGGS TYPE_ANTI_HIGGS s (stl r)
               else spawnPair TYPE_ELECTRON TYPE_POSITRON s (stl r)"
    from 1(3) True obtain s1 r1 where sp: "?sp = Inr (s1, r1)"
      and rest: "inject_loop (acc - 1.0) s1 r1 = Inr (acc', s', r')"
      by (subst (asm) inject_loop.simps) (auto split: sum.splits)
    from sp 1(2) have "pool_inv s1"
      by (auto split: if_splits dest: pool_inv_spawnPair)
    from 1(1) [OF True sp refl this rest] show ?thesis .
  qed
qed

subsection \<open>The loop over the active slots\<close>

lemma update_particle_fst:
  "fst (update_particle dt i (s, acc)) =
     (if typeArr s i = TYPE_INACTIVE then s else move_particle dt i s)"
  by (simp add: update_particle_def Let_def)

lemma pool_inv_move:
  assumes "pool_inv s" "i \<in> set (active s)"
  shows "pool_inv (move_particle dt i s)"
proof -
  have "\<And>j. j \<notin> set (active s) \<Longrightarrow> alpha (move_particle dt i s) j = alpha s j"
  proof -
    fix j assume "j \<notin> set (active s)"
    with assms(2) have "j \<noteq> i" by auto
    then show "alpha (move_particle dt i s) j = alpha s j" by (rule move_particle_alpha)
  qed
  then have "pool_inv (move_particle dt i s) = pool_inv s"
    by (intro pool_inv_cong) simp_all
  with assms(1) show ?thesis by simp
qed

lemma update_particle_snd:
  assumes inv: "pool_inv s" and i: "i \<in> set (active s)"
  shows "snd (update_particle dt i (s, acc)) = acc \<or>
         snd (update_particle dt i (s, acc)) = acc @ [(i, pairWith s i, False)] \<or>
         snd (update_particle dt i (s, acc)) = acc @ [(i, pairWith s i, True)]"
proof -
  note d = pool_invD [OF inv]
  have e: "entangledWith s i = pairWith s i" by (rule d(5))
  have "pairWith s i = - 1 \<or> active_has (move_particle dt i s) (pairWith s i)"
    using d(6) [of i] by (auto simp: active_has_def)
  then show ?thesis
    by (auto simp: update_particle_def Let_def e)
qed

lemma update_particle_natural:
  assumes inv: "pool_inv s" and i: "i \<in> set (active s)"
    and t: "typeArr s i \<noteq> TYPE_INACTIVE" and a: "age s i + dt \<ge> lifetime s i"
  shows "snd (update_particle dt i (s, acc)) = acc @ [(i, pairWith s i, False)]"
proof -
  note d = pool_invD [OF inv]
  have e: "entangledWith s i = pairWith s i" by (rule d(5))
  have "pairWith s i = - 1 \<or> active_has (move_particle dt i s) (pairWith s i)"
    using d(6) [of i] by (auto simp: active_has_def)
  then show ?thesis
    using t a by (auto simp: update_particle_def Let_def e)
qed

lemma active_loop:
  assumes "pool_inv s" "set xs \<subseteq> set (active s)" "distinct xs"
  shows "pool_inv (fst (fold (update_particle dt) xs (s, acc))) \<and>
         active (fst (fold (update_particle dt) xs (s, acc))) = active s \<and>
         pairWith (fst (fold (update_particle dt) xs (s, acc))) = pairWith s \<and>
         field (fst (fold (update_particle dt) xs (s, acc))) = field s \<and>
         (\<forall>e \<in> set (snd (fold (update_particle dt) xs (s, acc))).
            e \<in> set acc \<or> (fst e \<in> set (active s) \<and> fst (snd e) = pairWith s (fst e))) \<and>
         set acc \<subseteq> set (snd (fold (update_particle dt) xs (s, acc))) \<and>
         (\<forall>i \<in> set xs. typeArr s i \<noteq> TYPE_INACTIVE \<and> age s i + dt \<ge> lifetime s i \<longrightarrow>
            (i, pairWith s i, False) \<in> set (snd (fold (update_particle dt) xs (s, acc))))"
  using assms
proof (induction xs arbitrary: s acc)
  case Nil
  then show ?case by simp
next
  case (Cons x xs)
  let ?u = "update_particle dt x (s, acc)"
  let ?s1 = "fst ?u"
  let ?a1 = "snd ?u"
  from Cons.prems have x: "x \<in> set (active s)" "x \<notin> set xs" "distinct xs"
    "set xs \<subseteq> set (active s)" by auto
  have s1: "?s1 = (if typeArr s x = TYPE_INACTIVE then s else move_particle dt x s)"
    by (rule update_particle_fst)
  have i1: "pool_inv ?s1" using Cons.prems(1) x(1) by (simp add: s1 pool_inv_move)
  have f1: "active ?s1 = active s" "pairWith ?s1 = pairWith s" "field ?s1 = field s"
    "typeArr ?s1 = typeArr s" "lifetime ?s1 = lifetime s"
    "\<And>j. j \<noteq> x \<Longrightarrow> age ?s1 j = age s j"
    by (simp_all add: s1)
  note sn = update_particle_snd [OF Cons.prems(1) x(1), of dt acc]
  have sub: "set xs \<subseteq> set (active ?s1)" using x(4) by (simp add: f1)
  have u: "fold (update_particle dt) (x # xs) (s, acc) = fold (update_particle dt) xs (?s1, ?a1)"
    by simp
  note ih = Cons.IH [OF i1 sub x(3), of ?a1, unfolded f1]
  have nat: "typeArr s x \<noteq> TYPE_INACTIVE \<and> age s x + dt \<ge> lifetime s x \<longrightarrow>
      (x, pairWith s x, False) \<in> set ?a1"
    using update_particle_natural [OF Cons.prems(1) x(1), of dt acc] by auto
  have ages: "\<And>i. i \<in> set xs \<Longrightarrow> age ?s1 i = age s i"
  proof -
    fix i assume "i \<in> set xs"
    with x(2) have "i \<noteq> x" by auto
    then show "age ?s1 i = age s i" by (rule f1(6))
  qed
  show ?case
    unfolding u
  proof (intro conjI ballI impI)
    show "pool_inv (fst (fold (update_particle dt) xs (?s1, ?a1)))" using ih by blast
    show "active (fst (fold (update_particle dt) xs (?s1, ?a1))) = active s" using ih by blast
    show "pairWith (fst (fold (update_particle dt) xs (?s1, ?a1))) = pairWith s" using ih by blast
    show "field (fst (fold (update_particle dt) xs (?s1, ?a1))) = field s" using ih by blast
    show "set acc \<subseteq> set (snd (fold (update_particle dt) xs (?s1, ?a1)))"
      using ih sn by auto
    show "\<And>e. e \<in> set (snd (fold (update_particle dt) xs (?s1, ?a1))) \<Longrightarrow>
        e \<in> set acc \<or> (fst e \<in> set (active s) \<and> fst (snd e) = pairWith s (fst e))"
    proof -
      fix e assume "e \<in> set (snd (fold (update_particle dt) xs (?s1, ?a1)))"
      with ih have "e \<in> set ?a1 \<or> (fst e \<in> set (active s) \<and> fst (snd e) = pairWith s (fst e))"
        by blast
      with sn x(1) show "e \<in> set acc \<or> (fst e \<in> set (active s) \<and> fst (snd e) = pairWith s (fst e))"
        by auto
    qed
    show "\<And>i. i \<in> set (x # xs) \<Longrightarrow>
        typeArr s i \<noteq> TYPE_INACTIVE \<and> age s i + dt \<ge> lifetime s i \<Longrightarrow>
        (i, pairWith s i, False) \<in> set (snd (fold (update_particle dt) xs (?s1, ?a1)))"
    proof -
      fix i assume i: "i \<in> set (x # xs)"
        and c: "typeArr s i \<noteq> TYPE_INACTIVE \<and> age s i + dt \<ge> lifetime s i"
      show "(i, pairWith s i, False) \<in> set (snd (fold (update_particle dt) xs (?s1, ?a1)))"
      proof (cases "i = x")
        case True
        with nat c have "(i, pairWith s i, False) \<in> set ?a1" by simp
        with ih show ?thesis by blast
      next
        case False
        with i have ix: "i \<in> set xs" by simp
        with c ages [OF ix] have "typeArr s i \<noteq> TYPE_INACTIVE \<and> age ?s1 i + dt \<ge> lifetime s i"
          by simp
        with ih ix show ?thesis by blast
      qed
    qed
  qed
qed

subsection \<open>The whole update keeps the invariant\<close>

lemma spawnPair_keeps:
  assumes inv: "pool_inv s" and r: "spawnPair typeA typeB s r = Inr (s', r')"
    and i: "i \<in> set (active s)"
  shows "i \<in> set (active s') \<and> typeArr s' i = typeArr s i \<and> age s' i = age s i \<and>
         lifetime s' i = lifetime s i \<and> pairWith s' i = pairWith s i"
proof -
  from r obtain f where fld: "field s = Some f"
    by (cases "field s") (simp_all add: spawnPair_def sampleHotspot_def)
  show ?thesis
  proof (cases "length (freeList s) < 2")
    case True
    from spawnPair_rollback [OF inv True fld, of typeA typeB r] r i show ?thesis by auto
  next
    case False
    then obtain a b rest where fl: "freeList s = a # b # rest"
      by (cases "freeList s"; cases "tl (freeList s)") auto
    from pool_invD(3) [OF inv] fl i have "i \<noteq> a" "i \<noteq> b" by auto
    with spawnPair_success [OF inv fl fld, of typeA typeB r] r i show ?thesis by auto
  qed
qed

lemma inject_loop_keeps:
  "pool_inv s \<Longrightarrow> inject_loop acc s r = Inr (acc', s', r') \<Longrightarrow> i \<in> set (active s) \<Longrightarrow>
     i \<in> set (active s') \<and> typeArr s' i = typeArr s i \<and> age s' i = age s i \<and>
     lifetime s' i = lifetime s i \<and> pairWith s' i = pairWith s i"
proof (induction acc s r rule: inject_loop.induct)
  case (1 acc s r)
  show ?case
  proof (cases "acc \<ge> 1.0")
    case False
    with 1(3) have "s' = s" by (subst (asm) inject_loop.simps) simp
    with 1(4) show ?thesis by simp
  next
    case True
    let ?sp = "if shd r < 0.5 then spawnPair TYPE_ELECTRON TYPE_POSITRON s (stl r)
               else if shd r < 0.8 then spawnPair TYPE_HIGGS TYPE_ANTI_HIGGS s (stl r)
               else spawnPair TYPE_ELECTRON TYPE_POSITRON s (stl r)"
    from 1(3) True obtain s1 r1 where sp: "?sp = Inr (s1, r1)"
      and rest: "inject_loop (acc - 1.0) s1 r1 = Inr (acc', s', r')"
      by (subst (asm) inject_loop.simps) (auto split: sum.splits)
    from sp 1(2) have i1: "pool_inv s1"
      by (auto split: if_splits dest: pool_inv_spawnPair)
    from sp 1(2) 1(4)
    have k: "i \<in> set (active s1) \<and> typeArr s1 i = typeArr s i \<and> age s1 i = age s i \<and>
         lifetime s1 i = lifetime s i \<and> pairWith s1 i = pairWith s i"
      by (auto split: if_splits dest: spawnPair_keeps)
    from 1(1) [OF True sp refl i1 rest] k show ?thesis by simp
  qed
qed

lemma pool_inv_spawnAccum [simp]: "pool_inv (s\<lparr>spawnAccum := v\<rparr>) = pool_inv s"
  by (simp add: pool_inv_def)

lemma pool_inv_flashes [simp]: "pool_inv (s\<lparr>annihilationFlashes := v\<rparr>) = pool_inv s"
  by (simp add: pool_inv_def)

lemma gone_flashes [simp]: "gone (s\<lparr>annihilationFlashes := v\<rparr>) j = gone s j"
  by (simp add: gone_def)

lemma update_inv:
  assumes inv: "pool_inv s" and u: "ParticleSystem_update dt s r = Inr (s', r')"
  shows "pool_inv s'"
    and "\<And>i. i \<in> set (active s) \<Longrightarrow> typeArr s i \<noteq> TYPE_INACTIVE \<Longrightarrow>
           age s i + dt \<ge> lifetime s i \<Longrightarrow>
           gone s' i \<and> (pairWith s i = - 1 \<or> gone s' (nat (pairWith s i)))"
proof -
  let ?s0 = "s\<lparr>spawnAccum := spawnAccum s + injectionRate s * dt\<rparr>"
  from u obtain acc s1 r1 where il: "inject_loop (spawnAccum ?s0) ?s0 r = Inr (acc, s1, r1)"
    by (auto simp: ParticleSystem_update_def Let_def split: sum.splits)
  let ?s2 = "s1\<lparr>spawnAccum := acc\<rparr>"
  let ?l = "fold (update_particle dt) (active ?s2) (?s2, [])"
  let ?p = "fold process_entry (snd ?l) (fst ?l, r1)"
  from u il have s': "s' = (fst ?p)\<lparr>annihilationFlashes := map (age_flash dt) (annihilationFlashes (fst ?p))\<rparr>"
    by (simp add: ParticleSystem_update_def Let_def split_beta)
  have i0: "pool_inv ?s0" using inv by simp
  have i1: "pool_inv s1" by (rule pool_inv_inject_loop [OF i0 il])
  then have i2: "pool_inv ?s2" by simp
  note al = active_loop [OF i2 subset_refl pool_invD(2) [OF i2], of dt "[]"]
  from al have i3: "pool_inv (fst ?l)" by blast
  have ok: "\<forall>e \<in> set (snd ?l). entry_ok (fst ?l) e"
  proof
    fix e assume "e \<in> set (snd ?l)"
    with al have "fst e \<in> set (active (fst ?l)) \<and> pairWith (fst ?l) (fst e) = fst (snd e)"
      by auto
    then show "entry_ok (fst ?l) e" by (cases e) (simp add: entry_ok_def)
  qed
  note pl = process_loop_inv [OF i3 ok, of r1]
  from pl show "pool_inv s'" by (simp add: s')
  show "\<And>i. i \<in> set (active s) \<Longrightarrow> typeArr s i \<noteq> TYPE_INACTIVE \<Longrightarrow>
           age s i + dt \<ge> lifetime s i \<Longrightarrow>
           gone s' i \<and> (pairWith s i = - 1 \<or> gone s' (nat (pairWith s i)))"
  proof -
    fix i assume i: "i \<in> set (active s)" and t: "typeArr s i \<noteq> TYPE_INACTIVE"
      and a: "age s i + dt \<ge> lifetime s i"
    from i have "i \<in> set (active ?s0)" by simp
    from inject_loop_keeps [OF i0 il this]
    have k: "i \<in> set (active ?s2)" "typeArr ?s2 i = typeArr s i" "age ?s2 i = age s i"
      "lifetime ?s2 i = lifetime s i" "pairWith ?s2 i = pairWith s i"
      by simp_all
    from al k t a have "(i, pairWith s i, False) \<in> set (snd ?l)" by auto
    with pl have "entry_settled (fst ?p) (i, pairWith s i, False)" by blast
    then show "gone s' i \<and> (pairWith s i = - 1 \<or> gone s' (nat (pairWith s i)))"
      by (auto simp: entry_settled_def s')
  qed
qed

lemma pool_inv_symmetric: "pool_inv s \<Longrightarrow> pairing_symmetric s"
  unfolding pool_inv_def pairing_symmetric_def active_has_def by blast

subsection \<open>One update of the pool that holds one pair\<close>

lemma pool_inv_pair_pool: "pool_inv pair_pool"
  unfolding pool_inv_def pair_pool_def new_ParticleSystem_def
  by (auto simp: TYPE_INACTIVE_def)

lemma pair_pool_sel:
  "active pair_pool = [0, 1]"
  "typeArr pair_pool = (\<lambda>_. TYPE_INACTIVE)(0 := TYPE_ELECTRON, 1 := TYPE_POSITRON)"
  "age pair_pool = (\<lambda>_. 0)(0 := 0.9)"
  "lifetime pair_pool = (\<lambda>_. 0)(0 := 1, 1 := 4)"
  "entangledWith pair_pool = (\<lambda>_. - 1)(0 := 1, 1 := 0)"
  "pairWith pair_pool = (\<lambda>_. - 1)(0 := 1, 1 := 0)"
  "px pair_pool = (\<lambda>_. 0)(1 := 10)"
  "spawnAccum pair_pool = 0" "injectionRate pair_pool = 0" "field pair_pool = None"
  by (simp_all add: pair_pool_def new_ParticleSystem_def)

lemma inject_loop_none: "acc < 1 \<Longrightarrow> inject_loop acc s r = Inr (acc, s, r)"
  by (subst inject_loop.simps) simp

lemma pair_pool_update:
  "ParticleSystem_update 0.2 pair_pool r = Inr (pair_pool_after, r)"
  unfolding pair_pool_after_def
  by (simp add: ParticleSystem_update_def Let_def pair_pool_sel inject_loop_none
      update_particle_def process_entry_def active_has_def
      TYPE_INACTIVE_def TYPE_ELECTRON_def TYPE_POSITRON_def)

subsection \<open>The pairing invariant and natural death\<close>

lemma spawnPair_returns:
  "field s = Some f \<Longrightarrow> \<exists>s' r'. spawnPair typeA typeB s r = Inr (s', r')"
  using sampleHotspot_Some [of s f r]
  by (auto simp: spawnPair_def Let_def split_beta)

lemma inject_loop_returns:
  "field s = Some f \<Longrightarrow> \<exists>x. inject_loop acc s r = Inr x"
proof (induction acc s r rule: inject_loop.induct)
  case (1 acc s r)
  show ?case
  proof (cases "acc \<ge> 1.0")
    case False
    then show ?thesis by (subst inject_loop.simps) simp
  next
    case True
    let ?sp = "if shd r < 0.5 then spawnPair TYPE_ELECTRON TYPE_POSITRON s (stl r)
               else if shd r < 0.8 then spawnPair TYPE_HIGGS TYPE_ANTI_HIGGS s (stl r)
               else spawnPair TYPE_ELECTRON TYPE_POSITRON s (stl r)"
    from spawnPair_returns [OF 1(2)] obtain s1 r1 where sp: "?sp = Inr (s1, r1)"
      by (metis (full_types))
    then have "field s1 = field s" by (auto split: if_splits dest: spawnPair_field)
    with 1(2) have f1: "field s1 = Some f" by simp
    from 1(1) [OF True sp refl f1] obtain x where x: "inject_loop (acc - 1.0) s1 r1 = Inr x" by blast
    have "inject_loop acc s r = inject_loop (acc - 1.0) s1 r1"
      using True sp by (subst inject_loop.simps) simp
    with x show ?thesis by (intro exI [of _ x]) simp
  qed
qed

lemma update_returns:
  "field s = Some f \<Longrightarrow> \<exists>x. ParticleSystem_update dt s r = Inr x"
proof -
  assume "field s = Some f"
  then have "field (s\<lparr>spawnAccum := spawnAccum s + injectionRate s * dt\<rparr>) = Some f" by simp
  from inject_loop_returns [OF this] obtain x where
    "inject_loop (spawnAccum s + injectionRate s * dt)
       (s\<lparr>spawnAccum := spawnAccum s + injectionRate s * dt\<rparr>) r = Inr x"
    by blast
  then show ?thesis
    by (cases x) (simp add: ParticleSystem_update_def Let_def split_beta)
qed

text \<open>
  C7 (as amended). The pairing relation is symmetric or absent at every point between the
  public operations: the pool invariant holds in the state the constructor builds, attaching
  a field keeps it, every \<open>spawnPair\<close> and every complete \<open>update\<close> call keeps it (and
  both return, once a field is attached), and it implies that the partner field of a live
  slot, when it is not \<open>-1\<close>, names a live slot whose partner field points back.
\<close>

theorem pairing_symmetry_invariant:
  "pool_inv new_ParticleSystem \<and>
   (pool_inv s \<longrightarrow> pairing_symmetric s \<and> pool_inv (s\<lparr>field := fld\<rparr>)) \<and>
   (pool_inv s \<and> spawnPair typeA typeB s r = Inr (s1, r1) \<longrightarrow> pool_inv s1) \<and>
   (pool_inv s \<and> ParticleSystem_update dt s r = Inr (s2, r2) \<longrightarrow> pool_inv s2) \<and>
   (field s \<noteq> None \<longrightarrow>
      (\<exists>x. spawnPair typeA typeB s r = Inr x) \<and> (\<exists>x. ParticleSystem_update dt s r = Inr x))"
proof (intro conjI impI)
  show "pool_inv new_ParticleSystem" by (rule pool_inv_new)
  show "pool_inv s \<Longrightarrow> pairing_symmetric s" by (rule pool_inv_symmetric)
  show "pool_inv s \<Longrightarrow> pool_inv (s\<lparr>field := fld\<rparr>)" by (simp add: pool_inv_def)
  show "pool_inv s \<and> spawnPair typeA typeB s r = Inr (s1, r1) \<Longrightarrow> pool_inv s1"
    by (blast intro: pool_inv_spawnPair)
  show "pool_inv s \<and> ParticleSystem_update dt s r = Inr (s2, r2) \<Longrightarrow> pool_inv s2"
    by (blast intro: update_inv(1))
  show "field s \<noteq> None \<Longrightarrow> \<exists>x. spawnPair typeA typeB s r = Inr x"
    using spawnPair_returns [of s _ typeA typeB r] by auto
  show "field s \<noteq> None \<Longrightarrow> \<exists>x. ParticleSystem_update dt s r = Inr x"
    using update_returns [of s _ dt r] by auto
qed

theorem pairing_symmetry_invariant_witness:
  "pool_inv pair_pool \<and>
   ParticleSystem_update 0.2 pair_pool (sconst 0) = Inr (pair_pool_after, sconst 0) \<and>
   pool_inv pair_pool_after \<and> pairing_symmetric pair_pool \<and>
   pool_inv full_pool \<and> field full_pool \<noteq> None \<and>
   (\<exists>r1. spawnPair TYPE_ELECTRON TYPE_POSITRON full_pool (sconst 0) = Inr (full_pool, r1)) \<and>
   (\<exists>x. ParticleSystem_update 0.2 full_pool (sconst 0) = Inr x)"
proof -
  have f: "field full_pool \<noteq> None" "field full_pool = Some vacuum_field"
    "length (freeList full_pool) < 2"
    by (simp_all add: full_pool_def new_ParticleSystem_def)
  from spawnPair_rollback [OF pool_inv_full f(3) f(2), of TYPE_ELECTRON TYPE_POSITRON "sconst 0"]
  obtain r1 where r1: "spawnPair TYPE_ELECTRON TYPE_POSITRON full_pool (sconst 0) = Inr (full_pool, r1)"
    by blast
  note a = pairing_symmetry_invariant [of pair_pool "None" TYPE_ELECTRON TYPE_POSITRON "sconst 0"
      pair_pool "sconst 0" "0.2" pair_pool_after "sconst 0"]
  note b = pairing_symmetry_invariant [of full_pool "None" TYPE_ELECTRON TYPE_POSITRON "sconst 0"
      full_pool r1 "0.2" full_pool "sconst 0"]
  show ?thesis
    using a b r1 f(1) pool_inv_pair_pool pool_inv_full pair_pool_update [of "sconst 0"]
    by blast
qed

text \<open>
  The claim as first stated also takes the point after each \<open>_free\<close> as an observation
  point. \<open>_free\<close> clears the partner fields of the freed slot only: after freeing slot 0
  of a pair, slot 1 is live and still names slot 0, which is not live. Inside \<open>update\<close>
  the second \<open>_free\<close> follows at once.
\<close>

theorem free_breaks_pairing:
  "pool_inv pair_pool \<and> pairing_symmetric pair_pool \<and> \<not> pairing_symmetric (free 0 pair_pool)"
proof -
  have "\<not> pairing_symmetric (free 0 pair_pool)"
    by (simp add: pairing_symmetric_def pair_pool_sel active_has_def)
  with pool_inv_pair_pool pool_inv_symmetric [OF pool_inv_pair_pool] show ?thesis by simp
qed


lemma pair_pool_after_active: "active pair_pool_after = []"
  by (simp add: pair_pool_after_def pair_pool_sel)



subsection \<open>The coherence channel under the pool update\<close>

lemma coherence_boosted_refl: "coherence_boosted f f"
  by (simp add: coherence_boosted_def)

lemma coherence_boosted_trans:
  "coherence_boosted f g \<Longrightarrow> coherence_boosted g h \<Longrightarrow> coherence_boosted f h"
  unfolding coherence_boosted_def
proof
  fix c
  assume a: "\<forall>c. orchCoherence g c = orchCoherence f c \<or>
          (min 1 (orchCoherence f c) \<le> orchCoherence g c \<and> orchCoherence g c \<le> 1)"
    and b: "\<forall>c. orchCoherence h c = orchCoherence g c \<or>
          (min 1 (orchCoherence g c) \<le> orchCoherence h c \<and> orchCoherence h c \<le> 1)"
  from a [rule_format, of c] b [rule_format, of c]
  show "orchCoherence h c = orchCoherence f c \<or>
          (min 1 (orchCoherence f c) \<le> orchCoherence h c \<and> orchCoherence h c \<le> 1)"
    by (auto simp: min_def split: if_splits)
qed

lemma coherence_boosted_unit:
  "coherence_boosted f f' \<Longrightarrow> \<forall>c. 0 \<le> orchCoherence f c \<and> orchCoherence f c \<le> 1 \<Longrightarrow>
     0 \<le> orchCoherence f' c \<and> orchCoherence f' c \<le> 1"
  unfolding coherence_boosted_def
  by (metis min.absorb2 order_trans)

lemma boost_coherence_field:
  "field s = Some f \<Longrightarrow>
     \<exists>f'. field (boost_coherence x y z s) = Some f' \<and> coherence_boosted f f'"
  by (auto simp: boost_coherence_def Let_def coherence_boosted_def min_def)

lemma alloc_field [simp]: "field (snd (alloc s)) = field s"
  by (simp add: alloc_def split: list.splits)

lemma photons_loop_field [simp]:
  "field (fst (spawnAnnihilationPhotons_loop k x y z s r)) = field s"
proof (induction k arbitrary: s r)
  case 0
  then show ?case by simp
next
  case (Suc k)
  show ?case
  proof (cases "fst (alloc s) = - 1")
    case True
    then show ?thesis
      using alloc_field [of s] by (simp add: split_beta)
  next
    case False
    then show ?thesis
      using alloc_field [of s] by (simp add: split_beta Suc)
  qed
qed

lemma process_entry_field:
  assumes "field s = Some f"
  shows "\<exists>f'. field (fst (process_entry e (s, r))) = Some f' \<and> coherence_boosted f f'"
proof -
  obtain a b d where e: "e = (a, b, d)" by (cases e) auto
  show ?thesis
  proof (cases "a \<in> set (active s) \<and> d")
    case False
    then show ?thesis
      using assms
      by (auto simp: e process_entry_def Let_def split_beta coherence_boosted_refl)
  next
    case True
    let ?ax = "(px s a + (if b \<noteq> - 1 then px s (nat b) else px s a)) * 0.5"
    let ?ay = "(py s a + (if b \<noteq> - 1 then py s (nat b) else py s a)) * 0.5"
    let ?az = "(pz s a + (if b \<noteq> - 1 then pz s (nat b) else pz s a)) * 0.5"
    let ?p = "emitFlash ?ax ?ay ?az (fst (spawnAnnihilationPhotons ?ax ?ay ?az s r))"
    have "field ?p = Some f" using assms by (simp add: spawnAnnihilationPhotons_def)
    from boost_coherence_field [OF this, of ?ax ?ay ?az] obtain f' where
      "field (boost_coherence ?ax ?ay ?az ?p) = Some f'" "coherence_boosted f f'" by blast
    then show ?thesis
      using True by (auto simp: e process_entry_def Let_def split_beta)
  qed
qed

lemma process_loop_field:
  "field s = Some f \<Longrightarrow>
     \<exists>f'. field (fst (fold process_entry es (s, r))) = Some f' \<and> coherence_boosted f f'"
proof (induction es arbitrary: s r f)
  case Nil
  then show ?case by (simp add: coherence_boosted_refl)
next
  case (Cons e es)
  from process_entry_field [OF Cons.prems, of e r] obtain f1 where
    f1: "field (fst (process_entry e (s, r))) = Some f1" "coherence_boosted f f1" by blast
  from Cons.IH [OF f1(1), of "snd (process_entry e (s, r))"] obtain f' where
    "field (fst (fold process_entry es (process_entry e (s, r)))) = Some f'"
    "coherence_boosted f1 f'" by auto
  with f1(2) show ?case by (auto intro: coherence_boosted_trans)
qed

lemma active_loop_field:
  "field (fst (fold (update_particle dt) xs (s, acc))) = field s"
proof (induction xs arbitrary: s acc)
  case Nil
  then show ?case by simp
next
  case (Cons x xs)
  have "field (fst (update_particle dt x (s, acc))) = field s"
    by (simp add: update_particle_fst)
  with Cons [of "fst (update_particle dt x (s, acc))" "snd (update_particle dt x (s, acc))"]
  show ?case by simp
qed

lemma inject_loop_field:
  "inject_loop acc s r = Inr (acc', s', r') \<Longrightarrow> field s' = field s"
proof (induction acc s r rule: inject_loop.induct)
  case (1 acc s r)
  show ?case
  proof (cases "acc \<ge> 1.0")
    case False
    with 1(2) show ?thesis by (subst (asm) inject_loop.simps) simp
  next
    case True
    let ?sp = "if shd r < 0.5 then spawnPair TYPE_ELECTRON TYPE_POSITRON s (stl r)
               else if shd r < 0.8 then spawnPair TYPE_HIGGS TYPE_ANTI_HIGGS s (stl r)
               else spawnPair TYPE_ELECTRON TYPE_POSITRON s (stl r)"
    from 1(2) True obtain s1 r1 where sp: "?sp = Inr (s1, r1)"
      and rest: "inject_loop (acc - 1.0) s1 r1 = Inr (acc', s', r')"
      by (subst (asm) inject_loop.simps) (auto split: sum.splits)
    from sp have "field s1 = field s" by (auto split: if_splits dest: spawnPair_field)
    with 1(1) [OF True sp refl rest] show ?thesis by simp
  qed
qed

lemma update_field:
  assumes f: "field s = Some f" and u: "ParticleSystem_update dt s r = Inr (s', r')"
  shows "\<exists>f'. field s' = Some f' \<and> coherence_boosted f f'"
proof -
  let ?s0 = "s\<lparr>spawnAccum := spawnAccum s + injectionRate s * dt\<rparr>"
  from u obtain acc s1 r1 where il: "inject_loop (spawnAccum ?s0) ?s0 r = Inr (acc, s1, r1)"
    by (auto simp: ParticleSystem_update_def Let_def split: sum.splits)
  let ?s2 = "s1\<lparr>spawnAccum := acc\<rparr>"
  let ?l = "fold (update_particle dt) (active ?s2) (?s2, [])"
  let ?p = "fold process_entry (snd ?l) (fst ?l, r1)"
  from u il have s': "s' = (fst ?p)\<lparr>annihilationFlashes := map (age_flash dt) (annihilationFlashes (fst ?p))\<rparr>"
    by (simp add: ParticleSystem_update_def Let_def split_beta)
  from inject_loop_field [OF il] f have "field s1 = Some f" by simp
  then have "field (fst ?l) = Some f" by (simp add: active_loop_field)
  from process_loop_field [OF this, of "snd ?l" r1] show ?thesis by (simp add: s')
qed

subsection \<open>Annihilation of a close pair\<close>

lemma higgsGrad_spawnAccum [simp]:
  "higgsGrad (s\<lparr>spawnAccum := a\<rparr>) x y z = higgsGrad s x y z"
  by (simp add: higgsGrad_def)

lemma apply_force_spawnAccum:
  "apply_force dt i (s\<lparr>spawnAccum := a\<rparr>) = (apply_force dt i s)\<lparr>spawnAccum := a\<rparr>"
  by (simp add: apply_force_def split_beta)

lemma apply_drag_spawnAccum:
  "apply_drag i (s\<lparr>spawnAccum := a\<rparr>) = (apply_drag i s)\<lparr>spawnAccum := a\<rparr>"
  by (simp add: apply_drag_def)

lemma advance_position_spawnAccum:
  "advance_position dt i (s\<lparr>spawnAccum := a\<rparr>) = (advance_position dt i s)\<lparr>spawnAccum := a\<rparr>"
  by (simp add: advance_position_def)

lemma wrap_x_spawnAccum:
  "wrap_x i (s\<lparr>spawnAccum := a\<rparr>) = (wrap_x i s)\<lparr>spawnAccum := a\<rparr>"
  by (simp add: wrap_x_def Let_def)

lemma wrap_y_spawnAccum:
  "wrap_y i (s\<lparr>spawnAccum := a\<rparr>) = (wrap_y i s)\<lparr>spawnAccum := a\<rparr>"
  by (simp add: wrap_y_def Let_def)

lemma wrap_z_spawnAccum:
  "wrap_z i (s\<lparr>spawnAccum := a\<rparr>) = (wrap_z i s)\<lparr>spawnAccum := a\<rparr>"
  by (simp add: wrap_z_def Let_def)

lemma fade_spawnAccum:
  "fade i (s\<lparr>spawnAccum := a\<rparr>) = (fade i s)\<lparr>spawnAccum := a\<rparr>"
  by (simp add: fade_def Let_def)

lemma age_spawnAccum:
  "s\<lparr>spawnAccum := a, age := g\<rparr> = s\<lparr>age := g\<rparr>\<lparr>spawnAccum := a\<rparr>"
  by simp

lemma move_particle_spawnAccum:
  "move_particle dt i (s\<lparr>spawnAccum := a\<rparr>) = (move_particle dt i s)\<lparr>spawnAccum := a\<rparr>"
  unfolding move_particle_def Let_def
  by (simp add: age_spawnAccum apply_force_spawnAccum apply_drag_spawnAccum
      advance_position_spawnAccum wrap_x_spawnAccum wrap_y_spawnAccum wrap_z_spawnAccum
      fade_spawnAccum del: ParticleSystem.update_convs)

lemma pair_dist2_spawnAccum [simp]:
  "pair_dist2 dt i j (s\<lparr>spawnAccum := a\<rparr>) = pair_dist2 dt i j s"
  by (simp add: pair_dist2_def move_particle_spawnAccum)

lemma pair_midpoint_spawnAccum [simp]:
  "pair_midpoint dt i j (s\<lparr>spawnAccum := a\<rparr>) = pair_midpoint dt i j s"
  by (simp add: pair_midpoint_def move_particle_spawnAccum Let_def)


lemma photons3:
  assumes fl: "freeList t = p1 # p2 # p3 # rest" and d: "distinct (freeList t)"
    and dj: "set (freeList t) \<inter> set (active t) = {}"
  shows "active (fst (spawnAnnihilationPhotons x y z t r)) = active t @ [p1, p2, p3]"
    and "freeList (fst (spawnAnnihilationPhotons x y z t r)) = rest"
    and "typeArr (fst (spawnAnnihilationPhotons x y z t r)) =
           (typeArr t)(p1 := TYPE_PHOTON, p2 := TYPE_PHOTON, p3 := TYPE_PHOTON)"
    and "age (fst (spawnAnnihilationPhotons x y z t r)) = (age t)(p1 := 0, p2 := 0, p3 := 0)"
    and "alpha (fst (spawnAnnihilationPhotons x y z t r)) = (alpha t)(p1 := 1, p2 := 1, p3 := 1)"
    and "px (fst (spawnAnnihilationPhotons x y z t r)) = (px t)(p1 := x, p2 := x, p3 := x)"
    and "py (fst (spawnAnnihilationPhotons x y z t r)) = (py t)(p1 := y, p2 := y, p3 := y)"
    and "pz (fst (spawnAnnihilationPhotons x y z t r)) = (pz t)(p1 := z, p2 := z, p3 := z)"
    and "pairWith (fst (spawnAnnihilationPhotons x y z t r)) =
           (pairWith t)(p1 := - 1, p2 := - 1, p3 := - 1)"
    and "entangledWith (fst (spawnAnnihilationPhotons x y z t r)) =
           (entangledWith t)(p1 := - 1, p2 := - 1, p3 := - 1)"
    and "field (fst (spawnAnnihilationPhotons x y z t r)) = field t"
proof -
  from fl d dj have n: "p1 \<notin> set (active t)" "p2 \<notin> set (active t)" "p3 \<notin> set (active t)"
    "p1 \<noteq> p2" "p1 \<noteq> p3" "p2 \<noteq> p3"
    by auto
  let ?t1 = "fst (photon_init p1 x y z (t\<lparr>freeList := p2 # p3 # rest, active := active t @ [p1]\<rparr>) r)"
  let ?r1 = "snd (photon_init p1 x y z (t\<lparr>freeList := p2 # p3 # rest, active := active t @ [p1]\<rparr>) r)"
  let ?t2 = "fst (photon_init p2 x y z (?t1\<lparr>freeList := p3 # rest, active := active ?t1 @ [p2]\<rparr>) ?r1)"
  let ?r2 = "snd (photon_init p2 x y z (?t1\<lparr>freeList := p3 # rest, active := active ?t1 @ [p2]\<rparr>) ?r1)"
  let ?t3 = "fst (photon_init p3 x y z (?t2\<lparr>freeList := rest, active := active ?t2 @ [p3]\<rparr>) ?r2)"
  have a1: "alloc t = (int p1, t\<lparr>freeList := p2 # p3 # rest, active := active t @ [p1]\<rparr>)"
    using fl n(1) by (rule alloc_Cons)
  have a2: "alloc ?t1 = (int p2, ?t1\<lparr>freeList := p3 # rest, active := active ?t1 @ [p2]\<rparr>)"
    by (rule alloc_Cons) (use n in simp_all)
  have a3: "alloc ?t2 = (int p3, ?t2\<lparr>freeList := rest, active := active ?t2 @ [p3]\<rparr>)"
    by (rule alloc_Cons) (use n in simp_all)
  have e: "fst (spawnAnnihilationPhotons x y z t r) = ?t3"
    unfolding spawnAnnihilationPhotons_def numeral_3_eq_3
    by (simp add: a1 a2 a3 split_beta del: photon_init_sel)
  show "active (fst (spawnAnnihilationPhotons x y z t r)) = active t @ [p1, p2, p3]"
    and "freeList (fst (spawnAnnihilationPhotons x y z t r)) = rest"
    and "typeArr (fst (spawnAnnihilationPhotons x y z t r)) =
           (typeArr t)(p1 := TYPE_PHOTON, p2 := TYPE_PHOTON, p3 := TYPE_PHOTON)"
    and "age (fst (spawnAnnihilationPhotons x y z t r)) = (age t)(p1 := 0, p2 := 0, p3 := 0)"
    and "alpha (fst (spawnAnnihilationPhotons x y z t r)) = (alpha t)(p1 := 1, p2 := 1, p3 := 1)"
    and "px (fst (spawnAnnihilationPhotons x y z t r)) = (px t)(p1 := x, p2 := x, p3 := x)"
    and "py (fst (spawnAnnihilationPhotons x y z t r)) = (py t)(p1 := y, p2 := y, p3 := y)"
    and "pz (fst (spawnAnnihilationPhotons x y z t r)) = (pz t)(p1 := z, p2 := z, p3 := z)"
    and "pairWith (fst (spawnAnnihilationPhotons x y z t r)) =
           (pairWith t)(p1 := - 1, p2 := - 1, p3 := - 1)"
    and "entangledWith (fst (spawnAnnihilationPhotons x y z t r)) =
           (entangledWith t)(p1 := - 1, p2 := - 1, p3 := - 1)"
    and "field (fst (spawnAnnihilationPhotons x y z t r)) = field t"
    unfolding e by simp_all
qed


lemma update_particle_annihilates:
  assumes "typeArr t i \<noteq> TYPE_INACTIVE" "age t i + dt < lifetime t i"
    and "pairWith t i = int j" "i < j" "j \<in> set (active t)"
    and "pair_dist2 dt i j t < ANNIHILATION_RADIUS * ANNIHILATION_RADIUS"
  shows "update_particle dt i (t, acc) = (move_particle dt i t, acc @ [(i, int j, True)])"
  using assms
  by (simp add: update_particle_def Let_def active_has_def pair_dist2_def)

lemma update_particle_partner:
  assumes "typeArr t j \<noteq> TYPE_INACTIVE"
    and "pairWith t j = int i" "entangledWith t j = int i" "i < j" "i \<in> set (active t)"
  shows "fst (update_particle dt j (t, acc)) = move_particle dt j t"
    and "snd (update_particle dt j (t, acc)) = acc \<or>
         snd (update_particle dt j (t, acc)) = acc @ [(j, int i, False)]"
  using assms
  by (auto simp: update_particle_def Let_def active_has_def)

lemma pair_annihilates:
  assumes inv: "pool_inv s" and act: "active s = [i, j]" and lt: "i < j"
    and pw: "pairWith s i = int j"
    and ti: "typeArr s i \<noteq> TYPE_INACTIVE" and tj: "typeArr s j \<noteq> TYPE_INACTIVE"
    and inj: "spawnAccum s + injectionRate s * dt < 1"
    and young: "age s i + dt < lifetime s i"
    and near: "pair_dist2 dt i j s < ANNIHILATION_RADIUS * ANNIHILATION_RADIUS"
    and fl: "freeList s = p1 # p2 # p3 # rest"
    and fld: "field s = Some f"
  shows "\<exists>s' r'. ParticleSystem_update dt s r = Inr (s', r') \<and>
           active s' = [p1, p2, p3] \<and>
           photon_born s' (pair_midpoint dt i j s) p1 \<and>
           photon_born s' (pair_midpoint dt i j s) p2 \<and>
           photon_born s' (pair_midpoint dt i j s) p3 \<and>
           field s' = Some (boost_cell f
             (case pair_midpoint dt i j s of (mx, my, mz) \<Rightarrow> nearestCell mx my mz))"
proof -
  note d = pool_invD [OF inv]
  from d(6) [of i] pw have pj: "pairWith s j = int i" by simp
  from d(5) [of j] pj have ej: "entangledWith s j = int i" by simp
  from fl d(1) d(3) act have n: "p1 \<noteq> p2" "p1 \<noteq> p3" "p2 \<noteq> p3"
    "p1 \<noteq> i" "p2 \<noteq> i" "p3 \<noteq> i" "p1 \<noteq> j" "p2 \<noteq> j" "p3 \<noteq> j"
    by auto
  from lt have ij: "i \<noteq> j" by simp
  let ?a = "spawnAccum s + injectionRate s * dt"
  let ?s0 = "s\<lparr>spawnAccum := ?a\<rparr>"
  let ?m1 = "move_particle dt i ?s0"
  let ?m2 = "move_particle dt j ?m1"
  obtain mx my mz where m: "pair_midpoint dt i j s = (mx, my, mz)"
    by (cases "pair_midpoint dt i j s") auto
  then have m0: "pair_midpoint dt i j ?s0 = (mx, my, mz)" by simp
  then have mxyz: "mx = (px ?m2 i + px ?m2 j) * 0.5" "my = (py ?m2 i + py ?m2 j) * 0.5"
    "mz = (pz ?m2 i + pz ?m2 j) * 0.5"
    by (simp_all add: pair_midpoint_def Let_def)
  have il: "inject_loop ?a ?s0 r = Inr (?a, ?s0, r)"
    using inj by (rule inject_loop_none)
  have u1: "update_particle dt i (?s0, []) = (?m1, [(i, int j, True)])"
    using update_particle_annihilates [of ?s0 i dt j "[]"] ti young pw lt act near by simp
  have u2: "fst (update_particle dt j (?m1, [(i, int j, True)])) = ?m2"
    by (rule update_particle_partner(1) [of _ _ i]) (use tj pj ej lt act in simp_all)
  have u2': "snd (update_particle dt j (?m1, [(i, int j, True)])) = [(i, int j, True)] \<or>
             snd (update_particle dt j (?m1, [(i, int j, True)])) = [(i, int j, True), (j, int i, False)]"
    using update_particle_partner(2) [of ?m1 j i dt "[(i, int j, True)]"] tj pj ej lt act by simp
  let ?q = "fst (spawnAnnihilationPhotons mx my mz ?m2 r)"
  let ?r' = "snd (spawnAnnihilationPhotons mx my mz ?m2 r)"
  let ?b = "boost_coherence mx my mz (emitFlash mx my mz ?q)"
  let ?e = "free j (free i ?b)"
  have fl2: "freeList ?m2 = p1 # p2 # p3 # rest" using fl by simp
  have d2: "distinct (freeList ?m2)" "set (freeList ?m2) \<inter> set (active ?m2) = {}"
    using d(1) d(3) by simp_all
  note ph = photons3 [OF fl2 d2, of mx my mz r]
  have fp: "flash_part i (int j) True ?m2 r = (?b, ?r')"
    by (simp add: flash_part_def Let_def split_beta mxyz)
  have actb: "active ?b = [i, j, p1, p2, p3]" using ph(1) act by simp
  have fe: "free_entry i (int j) ?b = ?e"
    using ij act by (simp add: free_entry_def Let_def active_has_def ph(1))
  have p1: "process_entry (i, int j, True) (?m2, r) = (?e, ?r')"
    using process_entry_active [of i ?m2 "int j" True r] act fp fe by simp
  have acte: "active ?e = [p1, p2, p3]" using n ij act by (simp add: ph(1))
  then have "j \<notin> set (active ?e)" using n by simp
  then have p2: "process_entry (j, int i, False) (?e, ?r') = (?e, ?r')"
    by (rule process_entry_inactive)
  let ?s' = "?e\<lparr>annihilationFlashes := map (age_flash dt) (annihilationFlashes ?e)\<rparr>"
  have u: "ParticleSystem_update dt s r = Inr (?s', ?r')"
    using u2'
  proof
    assume "snd (update_particle dt j (?m1, [(i, int j, True)])) = [(i, int j, True)]"
    then show ?thesis
      using il u1 u2 p1 act
      by (simp add: ParticleSystem_update_def Let_def split_beta)
  next
    assume "snd (update_particle dt j (?m1, [(i, int j, True)])) = [(i, int j, True), (j, int i, False)]"
    then show ?thesis
      using il u1 u2 p1 p2 act
      by (simp add: ParticleSystem_update_def Let_def split_beta)
  qed
  have b1: "photon_born ?s' (mx, my, mz) p1" "photon_born ?s' (mx, my, mz) p2"
    "photon_born ?s' (mx, my, mz) p3"
    using n acte by (simp_all add: photon_born_def ph)
  have fb: "field ?s' = Some (boost_cell f (nearestCell mx my mz))"
    using fld by (simp add: boost_coherence_def Let_def ph(11) boost_cell_def)
  show ?thesis
    unfolding m using u acte b1 fb by (intro exI [of _ ?s'] exI [of _ ?r']) simp
qed

subsection \<open>The pool that holds one close pair\<close>

lemma higgsGrad_vacuum: "field t = Some vacuum_field \<Longrightarrow> higgsGrad t x y z = (0, 0, 0)"
  by (simp add: higgsGrad_def vacuum_field_def Let_def)

lemma higgsGrad_age [simp]: "higgsGrad (s\<lparr>age := a\<rparr>) x y z = higgsGrad s x y z"
  by (simp add: higgsGrad_def)

lemma apply_force_rest:
  assumes "higgsGrad s (px s i) (py s i) (pz s i) = (0, 0, 0)"
  shows "vx (apply_force dt i s) = vx s" "vy (apply_force dt i s) = vy s"
    "vz (apply_force dt i s) = vz s"
  using assms by (simp_all add: apply_force_def)

lemma apply_drag_rest:
  assumes "vx s i = 0" "vy s i = 0" "vz s i = 0"
  shows "vx (apply_drag i s) = vx s" "vy (apply_drag i s) = vy s" "vz (apply_drag i s) = vz s"
proof -
  have "(vx s)(i := 0) = vx s" "(vy s)(i := 0) = vy s" "(vz s)(i := 0) = vz s"
    using assms by auto
  then show "vx (apply_drag i s) = vx s" "vy (apply_drag i s) = vy s" "vz (apply_drag i s) = vz s"
    using assms by (simp_all add: apply_drag_def)
qed

lemma advance_position_rest:
  assumes "vx s i = 0" "vy s i = 0" "vz s i = 0"
  shows "px (advance_position dt i s) = px s" "py (advance_position dt i s) = py s"
    "pz (advance_position dt i s) = pz s"
    "vx (advance_position dt i s) = vx s" "vy (advance_position dt i s) = vy s"
    "vz (advance_position dt i s) = vz s"
  using assms by (simp_all add: advance_position_def)

lemma wrap_rest:
  "\<bar>px s i\<bar> \<le> WORLD_RANGE \<Longrightarrow> wrap_x i s = s"
  "\<bar>py s i\<bar> \<le> WORLD_RANGE \<Longrightarrow> wrap_y i s = s"
  "\<bar>pz s i\<bar> \<le> WORLD_RANGE \<Longrightarrow> wrap_z i s = s"
  by (simp_all add: wrap_x_def wrap_y_def wrap_z_def Let_def)

lemma fade_vel [simp]:
  "vx (fade i s) = vx s" "vy (fade i s) = vy s" "vz (fade i s) = vz s"
  by (simp_all add: fade_def Let_def)

lemma move_at_rest:
  assumes v: "vx s i = 0" "vy s i = 0" "vz s i = 0"
    and g: "higgsGrad s (px s i) (py s i) (pz s i) = (0, 0, 0)"
    and w: "\<bar>px s i\<bar> \<le> WORLD_RANGE" "\<bar>py s i\<bar> \<le> WORLD_RANGE" "\<bar>pz s i\<bar> \<le> WORLD_RANGE"
  shows "px (move_particle dt i s) = px s" "py (move_particle dt i s) = py s"
    "pz (move_particle dt i s) = pz s"
    "vx (move_particle dt i s) = vx s" "vy (move_particle dt i s) = vy s"
    "vz (move_particle dt i s) = vz s"
proof -
  let ?s1 = "s\<lparr>age := (age s)(i := age s i + dt)\<rparr>"
  let ?s2 = "apply_force dt i ?s1"
  let ?s3 = "apply_drag i ?s2"
  let ?s4 = "advance_position dt i ?s3"
  have g1: "higgsGrad ?s1 (px ?s1 i) (py ?s1 i) (pz ?s1 i) = (0, 0, 0)" using g by simp
  note f = apply_force_rest [OF g1, of dt]
  have v2: "vx ?s2 i = 0" "vy ?s2 i = 0" "vz ?s2 i = 0" using v by (simp_all add: f)
  note d = apply_drag_rest [OF v2]
  have v3: "vx ?s3 i = 0" "vy ?s3 i = 0" "vz ?s3 i = 0" using v2 by (simp_all add: d)
  note a = advance_position_rest [OF v3, of dt]
  have p4: "px ?s4 = px s" "py ?s4 = py s" "pz ?s4 = pz s"
    by (simp_all add: a)
  have v4: "vx ?s4 = vx s" "vy ?s4 = vy s" "vz ?s4 = vz s"
    by (simp_all add: a d f)
  have w4: "\<bar>px ?s4 i\<bar> \<le> WORLD_RANGE" "\<bar>py ?s4 i\<bar> \<le> WORLD_RANGE" "\<bar>pz ?s4 i\<bar> \<le> WORLD_RANGE"
    using w by (simp_all only: p4)
  have m: "move_particle dt i s = fade i ?s4"
    unfolding move_particle_def Let_def
    by (simp only: wrap_rest(1) [OF w4(1)] wrap_rest(2) [OF w4(2)] wrap_rest(3) [OF w4(3)])
  show "px (move_particle dt i s) = px s" "py (move_particle dt i s) = py s"
    "pz (move_particle dt i s) = pz s"
    "vx (move_particle dt i s) = vx s" "vy (move_particle dt i s) = vy s"
    "vz (move_particle dt i s) = vz s"
    unfolding m by (simp_all only: fade_sel fade_vel p4 v4)
qed

lemma close_pair_pool_sel:
  "active close_pair_pool = [0, 1]"
  "freeList close_pair_pool = 2 # 3 # 4 # [5..<MAX_PARTICLES]"
  "typeArr close_pair_pool = (\<lambda>_. TYPE_INACTIVE)(0 := TYPE_ELECTRON, 1 := TYPE_POSITRON)"
  "age close_pair_pool = (\<lambda>_. 0)"
  "lifetime close_pair_pool = (\<lambda>_. 0)(0 := 2, 1 := 2)"
  "entangledWith close_pair_pool = (\<lambda>_. - 1)(0 := 1, 1 := 0)"
  "pairWith close_pair_pool = (\<lambda>_. - 1)(0 := 1, 1 := 0)"
  "px close_pair_pool = (\<lambda>_. 0)(1 := 1)" "py close_pair_pool = (\<lambda>_. 0)"
  "pz close_pair_pool = (\<lambda>_. 0)"
  "vx close_pair_pool = (\<lambda>_. 0)" "vy close_pair_pool = (\<lambda>_. 0)" "vz close_pair_pool = (\<lambda>_. 0)"
  "spawnAccum close_pair_pool = 0" "injectionRate close_pair_pool = 0"
  "field close_pair_pool = Some vacuum_field"
  by (simp_all add: close_pair_pool_def new_ParticleSystem_def TYPE_INACTIVE_def)

lemma pool_inv_close_pair_pool: "pool_inv close_pair_pool"
  unfolding pool_inv_def close_pair_pool_def new_ParticleSystem_def
  by (auto simp: TYPE_INACTIVE_def)

lemma close_pair_pool_move:
  "px (move_particle dt 0 close_pair_pool) = px close_pair_pool"
  "py (move_particle dt 0 close_pair_pool) = py close_pair_pool"
  "pz (move_particle dt 0 close_pair_pool) = pz close_pair_pool"
  "px (move_particle dt 1 (move_particle dt 0 close_pair_pool)) = px close_pair_pool"
  "py (move_particle dt 1 (move_particle dt 0 close_pair_pool)) = py close_pair_pool"
  "pz (move_particle dt 1 (move_particle dt 0 close_pair_pool)) = pz close_pair_pool"
proof -
  have a: "vx close_pair_pool 0 = 0" "vy close_pair_pool 0 = 0" "vz close_pair_pool 0 = 0"
    "higgsGrad close_pair_pool (px close_pair_pool 0) (py close_pair_pool 0) (pz close_pair_pool 0) = (0, 0, 0)"
    "\<bar>px close_pair_pool 0\<bar> \<le> WORLD_RANGE" "\<bar>py close_pair_pool 0\<bar> \<le> WORLD_RANGE"
    "\<bar>pz close_pair_pool 0\<bar> \<le> WORLD_RANGE"
    by (simp_all add: close_pair_pool_sel higgsGrad_vacuum WORLD_RANGE_def)
  note m0 = move_at_rest [OF a, of dt]
  let ?m = "move_particle dt 0 close_pair_pool"
  have b: "vx ?m 1 = 0" "vy ?m 1 = 0" "vz ?m 1 = 0"
    "higgsGrad ?m (px ?m 1) (py ?m 1) (pz ?m 1) = (0, 0, 0)"
    "\<bar>px ?m 1\<bar> \<le> WORLD_RANGE" "\<bar>py ?m 1\<bar> \<le> WORLD_RANGE" "\<bar>pz ?m 1\<bar> \<le> WORLD_RANGE"
    by (simp_all add: m0 close_pair_pool_sel higgsGrad_vacuum WORLD_RANGE_def)
  note m1 = move_at_rest [OF b, of dt]
  show "px (move_particle dt 0 close_pair_pool) = px close_pair_pool"
    "py (move_particle dt 0 close_pair_pool) = py close_pair_pool"
    "pz (move_particle dt 0 close_pair_pool) = pz close_pair_pool"
    "px (move_particle dt 1 (move_particle dt 0 close_pair_pool)) = px close_pair_pool"
    "py (move_particle dt 1 (move_particle dt 0 close_pair_pool)) = py close_pair_pool"
    "pz (move_particle dt 1 (move_particle dt 0 close_pair_pool)) = pz close_pair_pool"
    using m0 m1 by simp_all
qed

lemma close_pair_pool_dist2: "pair_dist2 dt 0 1 close_pair_pool = 1"
  using close_pair_pool_move [of dt] by (simp add: pair_dist2_def close_pair_pool_sel)

lemma close_pair_pool_midpoint: "pair_midpoint dt 0 1 close_pair_pool = (1 / 2, 0, 0)"
  using close_pair_pool_move [of dt] by (simp add: pair_midpoint_def Let_def close_pair_pool_sel)

lemma nearestCell_half: "nearestCell (1 / 2) 0 0 = 11382"
proof -
  have a: "js_toInt32 ((1 / 2 + WORLD_RANGE) * (real N / (2 * WORLD_RANGE))) = 14"
    by (simp add: js_toInt32_def WORLD_RANGE_def N_def Let_def)
  have b: "js_toInt32 ((0 + WORLD_RANGE) * (real N / (2 * WORLD_RANGE))) = 14"
    by (simp add: js_toInt32_def WORLD_RANGE_def N_def Let_def)
  show ?thesis
    unfolding nearestCell_def Let_def a b by (simp add: N_def N2_def)
qed

subsection \<open>Annihilation: the amended claim\<close>

lemma old_pair_pool_sel:
  "active old_pair_pool = [0, 1]"
  "freeList old_pair_pool = 2 # 3 # 4 # [5..<MAX_PARTICLES]"
  "typeArr old_pair_pool = (\<lambda>_. TYPE_INACTIVE)(0 := TYPE_ELECTRON, 1 := TYPE_POSITRON)"
  "age old_pair_pool = (\<lambda>_. 0)(0 := 1.999, 1 := 1.999)"
  "lifetime old_pair_pool = (\<lambda>_. 0)(0 := 2, 1 := 2)"
  "entangledWith old_pair_pool = (\<lambda>_. - 1)(0 := 1, 1 := 0)"
  "pairWith old_pair_pool = (\<lambda>_. - 1)(0 := 1, 1 := 0)"
  "px old_pair_pool = (\<lambda>_. 0)(1 := 1)" "py old_pair_pool = (\<lambda>_. 0)"
  "pz old_pair_pool = (\<lambda>_. 0)"
  "spawnAccum old_pair_pool = 0" "injectionRate old_pair_pool = 0"
  "field old_pair_pool = Some vacuum_field"
  by (simp_all add: old_pair_pool_def close_pair_pool_sel)

lemma pool_inv_old_pair_pool: "pool_inv old_pair_pool"
proof -
  have "pool_inv old_pair_pool = pool_inv close_pair_pool"
    by (intro pool_inv_cong) (simp_all add: old_pair_pool_def)
  then show ?thesis by (simp add: pool_inv_close_pair_pool)
qed

lemma old_pair_pool_update:
  "map_sum id (\<lambda>(s', r'). (active s', field s')) (ParticleSystem_update 0.004 old_pair_pool r) =
     Inr ([], Some vacuum_field)"
  by (simp add: ParticleSystem_update_def Let_def old_pair_pool_sel inject_loop_none
      update_particle_def process_entry_def active_has_def
      TYPE_INACTIVE_def TYPE_ELECTRON_def TYPE_POSITRON_def)






subsection \<open>The coherence channel stays in the unit interval\<close>



section \<open>Loading a mesh that does not parse\<close>

lemma arr_length:
  "length (concat (map (\<lambda>(m1, m2, m3). [f m1, g m2, h m3]) ms)) = 3 * length ms"
  by (induction ms) auto

lemma binary_sized_iff:
  "binary_sized buf \<longleftrightarrow>
     (\<exists>cnt. getUint32 buf 80 = Inr cnt \<and> cnt > 0 \<and> length buf = 84 + cnt * 50)"
proof
  assume "binary_sized buf"
  then show "\<exists>cnt. getUint32 buf 80 = Inr cnt \<and> cnt > 0 \<and> length buf = 84 + cnt * 50"
    by (auto simp: binary_sized_def)
next
  assume "\<exists>cnt. getUint32 buf 80 = Inr cnt \<and> cnt > 0 \<and> length buf = 84 + cnt * 50"
  then obtain cnt where c: "getUint32 buf 80 = Inr cnt" "cnt > 0" "length buf = 84 + cnt * 50"
    by blast
  then have "cnt \<in> {1..length buf}" by simp
  with c show "binary_sized buf" unfolding binary_sized_def by blast
qed

lemma parseBinarySTL_sized:
  "getUint32 buf 80 = Inr cnt \<Longrightarrow> length buf = 84 + cnt * 50 \<Longrightarrow>
     parseBinarySTL p buf = Inr (snd ((read_triangle p buf ^^ cnt) (84, [])), cnt)"
  by (simp add: parseBinarySTL_def)

lemma parseSTL_binary:
  "binary_sized buf \<Longrightarrow> \<exists>parsed. parseSTL p buf = Inr parsed"
  unfolding binary_sized_iff
  by (auto simp: parseSTL_def parseBinarySTL_sized)

lemma parseSTL_ascii:
  "\<not> binary_sized buf \<Longrightarrow> parseSTL p buf = parseASCIISTL p buf"
  unfolding binary_sized_iff
  by (cases "getUint32 buf 80") (auto simp: parseSTL_def)

lemma parseASCIISTL_fails:
  "parseASCIISTL p buf = Inl e \<longleftrightarrow>
     length (vertex_records (decode p buf)) < 3 \<and> e = Error ''No vertices in ASCII STL''"
  by (auto simp: parseASCIISTL_def Let_def arr_length)

lemma parseSTL_fails:
  "parseSTL p buf = Inl e \<longleftrightarrow>
     \<not> binary_sized buf \<and> length (vertex_records (decode p buf)) < 3 \<and>
     e = Error ''No vertices in ASCII STL''"
proof (cases "binary_sized buf")
  case True
  with parseSTL_binary [of buf p] show ?thesis by auto
next
  case False
  then show ?thesis by (simp add: parseSTL_ascii parseASCIISTL_fails)
qed

lemma loadSTL_failure:
  "parseSTL p buf = Inl e \<Longrightarrow>
     loadSTL p buf (sc, w) =
       Inr (sc, w\<lparr>console := console w @
                   [ConsoleError ''[ShapeConstraint] Parse error:'' (message e)]\<rparr>)"
  by (simp add: loadSTL_def)

lemma columnScan_returns:
  "worldVerts sc = Some v \<Longrightarrow> \<exists>sc'. columnScan sc = Inr sc'"
  by (simp add: columnScan_def Let_def)

lemma rebuildFull_returns:
  "worldVerts sc = Some v \<Longrightarrow> \<exists>x. rebuildFull (sc, w) = Inr x"
  using columnScan_returns [of sc v]
  by (auto simp: rebuildFull_def Let_def)

lemma loadSTL_returns: "\<exists>x. loadSTL p buf st = Inr x"
proof -
  obtain sc w where st: "st = (sc, w)" by (cases st) auto
  show ?thesis
  proof (cases "parseSTL p buf")
    case (Inl e)
    then show ?thesis by (simp add: st loadSTL_failure)
  next
    case (Inr parsed)
    obtain verts cnt where pa: "parsed = (verts, cnt)" by (cases parsed) auto
    let ?sc4 = "sc\<lparr>triCount := cnt, rawVerts := Some verts,
                  rawCenter := Some (bboxCenter verts),
                  rawAutoS := autoScaleFactor (bboxCenter verts)\<rparr>"
    let ?w1 = "w\<lparr>console := console w @
                 [ConsoleLog cnt, ConsoleTime ''[ShapeConstraint] mask build'']\<rparr>"
    obtain sc5 where a: "applyTransform ?sc4 = Inr sc5" and wv: "worldVerts sc5 \<noteq> None"
      by (simp add: applyTransform_def Let_def)
    from wv obtain v where "worldVerts sc5 = Some v" by auto
    from rebuildFull_returns [OF this, of ?w1] obtain x where r: "rebuildFull (sc5, ?w1) = Inr x"
      by blast
    show ?thesis
      using Inr pa a r by (cases x) (simp add: st loadSTL_def Let_def)
  qed
qed

lemma match_vertex_no_v:
  "t \<noteq> [] \<Longrightarrow> canonicalize (hd t) \<noteq> 86 \<Longrightarrow> match_vertex t = None"
  by (cases t) (auto simp: match_vertex_def vertex_word_def)

lemma vertex_records_no_v:
  "\<forall>c \<in> set t. canonicalize c \<noteq> 86 \<Longrightarrow> vertex_records t = []"
proof (induction t)
  case Nil
  then show ?case by (subst vertex_records.simps) simp
next
  case (Cons c t)
  then have "match_vertex (c # t) = None" by (intro match_vertex_no_v) simp_all
  with Cons show ?case by (subst vertex_records.simps) simp
qed

lemma truncated_binary_facts:
  "length truncated_binary = 84" "getUint32 truncated_binary 80 = Inr 1"
  "\<not> binary_sized truncated_binary"
  "vertex_records (decode ascii_platform truncated_binary) = []"
proof -
  show l: "length truncated_binary = 84" by (simp add: truncated_binary_def)
  show g: "getUint32 truncated_binary 80 = Inr 1"
    by (simp add: getUint32_def truncated_binary_def nth_append)
  show "\<not> binary_sized truncated_binary"
    unfolding binary_sized_iff by (simp add: g l)
  have "\<forall>c \<in> set (decode ascii_platform truncated_binary). canonicalize c \<noteq> 86"
    by (auto simp: ascii_platform_def truncated_binary_def canonicalize_def)
  then show "vertex_records (decode ascii_platform truncated_binary) = []"
    by (rule vertex_records_no_v)
qed

lemma one_vertex_text_facts:
  "\<not> binary_sized one_vertex_text"
  "vertex_records (decode ascii_platform one_vertex_text) = [([49], [50], [51])]"
proof -
  have "getUint32 one_vertex_text 80 = Inl RangeError"
    by (simp add: getUint32_def one_vertex_text_def)
  then show "\<not> binary_sized one_vertex_text"
    unfolding binary_sized_iff by simp
  have d: "decode ascii_platform one_vertex_text = one_vertex_text"
    by (simp add: ascii_platform_def one_vertex_text_def)
  have m: "match_vertex one_vertex_text = Some (([49], [50], [51]), [])"
    by (simp add: match_vertex_def one_vertex_text_def canonicalize_def vertex_word_def
        is_space_def is_numeric_def Let_def)
  have e: "vertex_records [] = []" by (subst vertex_records.simps) simp
  have n: "one_vertex_text \<noteq> []" by (simp add: one_vertex_text_def)
  show "vertex_records (decode ascii_platform one_vertex_text) = [([49], [50], [51])]"
    unfolding d by (subst vertex_records.simps) (simp add: m e n)
qed


text \<open>
  C10 (as amended). \<open>parseSTL\<close> fails exactly when the input is not taken for a binary
  file (its count field is missing, zero, or does not account for the length exactly) and
  its text holds fewer than three vertex records; the error is then always the one of the
  ASCII parser, also for a binary file that was cut off. On such a failure \<open>loadSTL\<close>
  returns normally: it writes one line to the error console and leaves every field of the
  object as it was, the published mask and the cached binary mask among them. No call of
  \<open>loadSTL\<close> ends in an exception.
\<close>

theorem loadSTL_parse_failure:
  "(parseSTL p buf = Inl e \<longleftrightarrow>
      \<not> binary_sized buf \<and> length (vertex_records (decode p buf)) < 3 \<and>
      e = Error ''No vertices in ASCII STL'') \<and>
   (parseSTL p buf = Inl e \<longrightarrow>
      loadSTL p buf (sc, w) =
        Inr (sc, w\<lparr>console := console w @
                    [ConsoleError ''[ShapeConstraint] Parse error:''
                       ''No vertices in ASCII STL'']\<rparr>)) \<and>
   (\<exists>x. loadSTL p buf (sc, w) = Inr x)"
proof (intro conjI impI)
  show "parseSTL p buf = Inl e \<longleftrightarrow>
      \<not> binary_sized buf \<and> length (vertex_records (decode p buf)) < 3 \<and>
      e = Error ''No vertices in ASCII STL''"
    by (rule parseSTL_fails)
  show "\<exists>x. loadSTL p buf (sc, w) = Inr x" by (rule loadSTL_returns)
  assume f: "parseSTL p buf = Inl e"
  then have "message e = ''No vertices in ASCII STL''" by (simp add: parseSTL_fails)
  with loadSTL_failure [OF f, of sc w]
  show "loadSTL p buf (sc, w) =
        Inr (sc, w\<lparr>console := console w @
                    [ConsoleError ''[ShapeConstraint] Parse error:''
                       ''No vertices in ASCII STL'']\<rparr>)"
    by simp
qed

theorem loadSTL_parse_failure_witness:
  "\<not> binary_sized one_vertex_text \<and>
   length (vertex_records (decode ascii_platform one_vertex_text)) < 3 \<and>
   parseSTL ascii_platform one_vertex_text = Inl (Error ''No vertices in ASCII STL'') \<and>
   loadSTL ascii_platform one_vertex_text (new_ShapeConstraint, empty_world) =
     Inr (new_ShapeConstraint,
          empty_world\<lparr>console := [ConsoleError ''[ShapeConstraint] Parse error:''
                                    ''No vertices in ASCII STL'']\<rparr>) \<and>
   fuzzMask new_ShapeConstraint 0 = 1"
proof -
  note t = loadSTL_parse_failure [of ascii_platform one_vertex_text
      "Error ''No vertices in ASCII STL''" new_ShapeConstraint empty_world]
  have h: "\<not> binary_sized one_vertex_text"
    "length (vertex_records (decode ascii_platform one_vertex_text)) < 3"
    by (simp_all add: one_vertex_text_facts)
  with t have p: "parseSTL ascii_platform one_vertex_text = Inl (Error ''No vertices in ASCII STL'')"
    by blast
  with t have l: "loadSTL ascii_platform one_vertex_text (new_ShapeConstraint, empty_world) =
     Inr (new_ShapeConstraint,
          empty_world\<lparr>console := console empty_world @
            [ConsoleError ''[ShapeConstraint] Parse error:'' ''No vertices in ASCII STL'']\<rparr>)"
    by blast
  have c: "console empty_world = []" by (simp add: empty_world_def)
  have m: "fuzzMask new_ShapeConstraint 0 = 1"
    by (simp add: new_ShapeConstraint_def fill_def N3_def N_def)
  show ?thesis using h p l m unfolding c by simp
qed

text \<open>
  The claim as first stated has \<open>loadSTL\<close> report a parse error to its caller. A binary
  file cut off after its header (count 1, length 84 instead of 134) is handed to the ASCII
  parser, which finds no vertex record; \<open>loadSTL\<close> catches the error, writes it to the
  console and returns as it does after a successful load. The caller receives no error, and
  the message does not mention the truncation. The object is unchanged.
\<close>

theorem truncated_binary_not_reported:
  "length truncated_binary = 84 \<and> getUint32 truncated_binary 80 = Inr 1 \<and>
   parseBinarySTL ascii_platform truncated_binary = Inl (Error ''Truncated binary STL'') \<and>
   parseSTL ascii_platform truncated_binary = Inl (Error ''No vertices in ASCII STL'') \<and>
   loadSTL ascii_platform truncated_binary (new_ShapeConstraint, empty_world) =
     Inr (new_ShapeConstraint,
          empty_world\<lparr>console := [ConsoleError ''[ShapeConstraint] Parse error:''
                                    ''No vertices in ASCII STL'']\<rparr>)"
proof -
  note f = truncated_binary_facts
  have b: "parseBinarySTL ascii_platform truncated_binary = Inl (Error ''Truncated binary STL'')"
    by (simp add: parseBinarySTL_def f)
  have p: "parseSTL ascii_platform truncated_binary = Inl (Error ''No vertices in ASCII STL'')"
    unfolding parseSTL_fails by (simp add: f)
  have c: "console empty_world = []" by (simp add: empty_world_def)
  from loadSTL_failure [OF p, of new_ShapeConstraint empty_world]
  show ?thesis using f(1,2) b p unfolding c by simp
qed

end
